theory Spec2Isabelle
  imports Complex_Main "HOL-Library.AList" "HOL-Library.Log_Nat"
begin

section \<open>JavaScript numbers\<close>

text \<open>
  The TypeScript sources compute with \<^verbatim>\<open>number\<close>, the IEEE double. A finite number is
  the real it stands for. Where the program compares numbers or counts in small
  integers, which doubles do without error, the model computes on reals; the rewards
  computation multiplies and divides, and there every operation rounds as the double
  operation does (next section). The one non-finite value the sources write down in a
  table, \<^verbatim>\<open>Infinity\<close>, is a constructor of its own, so that a comparison against it behaves
  as in the program: no finite number reaches it.
\<close>

datatype jsnum = Num real | Infinity

fun js_ge :: "jsnum \<Rightarrow> jsnum \<Rightarrow> bool" where
  "js_ge (Num x) (Num y) = (y \<le> x)"
| "js_ge (Num x) Infinity = False"
| "js_ge Infinity _ = True"

section \<open>Double-precision arithmetic\<close>

text \<open>
  A double is a finite number, one of the two infinities, or NaN. The two zeros are one
  value here: they compare equal, and the rewards computation divides by non-zero
  constants only, so nothing in it tells them apart.
\<close>

datatype double = Finite real | PosInfinity | NegInfinity | NaN

definition pow2 :: "int \<Rightarrow> real" where
  "pow2 k = (if 0 \<le> k then 2 ^ nat k else 1 / 2 ^ nat (- k))"

text \<open>The exponent \<open>e\<close> of a positive number: \<open>2\<^sup>e \<le> a < 2\<^sup>e\<^sup>+\<^sup>1\<close>.\<close>

definition binade :: "real \<Rightarrow> int" where
  "binade a =
     (if 1 \<le> a then bitlen \<lfloor>a\<rfloor> - 1
      else (let k = bitlen \<lfloor>1 / a\<rfloor> - 1
            in if a = pow2 (- k) then - k else - k - 1))"

definition roundHalfEven :: "real \<Rightarrow> int" where
  "roundHalfEven m =
     (let f = \<lfloor>m\<rfloor>; r = m - of_int f
      in if r < 1 / 2 then f else if 1 / 2 < r then f + 1
         else if even f then f else f + 1)"

text \<open>
  Rounding to the nearest double, ties to the even significand: 53 significant bits
  from the exponent of the number, or the fixed spacing of the subnormal range below
  exponent -1022; a result whose exponent reaches 1024 overflows to an infinity.
\<close>

definition rnd :: "real \<Rightarrow> double" where
  "rnd x =
     (if x = 0 then Finite 0
      else (let a = \<bar>x\<bar>;
                e = max (binade a) (- 1022);
                ulp = pow2 (e - 52);
                y = of_int (roundHalfEven (a / ulp)) * ulp
            in if 0 < y \<and> 1024 \<le> binade y then (if 0 < x then PosInfinity else NegInfinity)
               else Finite (if 0 < x then y else - y)))"

text \<open>A numeric literal of the source is the double nearest to it.\<close>

definition literal :: "real \<Rightarrow> double" where
  "literal x = rnd x"

definition dsgn :: "double \<Rightarrow> int" where
  "dsgn a = (case a of Finite x \<Rightarrow> (if 0 < x then 1 else if x < 0 then - 1 else 0)
                     | PosInfinity \<Rightarrow> 1 | NegInfinity \<Rightarrow> - 1 | NaN \<Rightarrow> 0)"

definition dneg :: "double \<Rightarrow> double" where
  "dneg a = (case a of Finite x \<Rightarrow> Finite (- x) | PosInfinity \<Rightarrow> NegInfinity
                     | NegInfinity \<Rightarrow> PosInfinity | NaN \<Rightarrow> NaN)"

fun dadd :: "double \<Rightarrow> double \<Rightarrow> double" where
  "dadd NaN b = NaN"
| "dadd a NaN = NaN"
| "dadd (Finite x) (Finite y) = rnd (x + y)"
| "dadd PosInfinity NegInfinity = NaN"
| "dadd NegInfinity PosInfinity = NaN"
| "dadd PosInfinity b = PosInfinity"
| "dadd NegInfinity b = NegInfinity"
| "dadd a b = b"

definition dsub :: "double \<Rightarrow> double \<Rightarrow> double" where
  "dsub a b = dadd a (dneg b)"

fun dmul :: "double \<Rightarrow> double \<Rightarrow> double" where
  "dmul NaN b = NaN"
| "dmul a NaN = NaN"
| "dmul (Finite x) (Finite y) = rnd (x * y)"
| "dmul a b = (if dsgn a * dsgn b = 0 then NaN
               else if 0 < dsgn a * dsgn b then PosInfinity else NegInfinity)"

text \<open>Division; a zero divisor is taken as the positive zero.\<close>

fun ddiv :: "double \<Rightarrow> double \<Rightarrow> double" where
  "ddiv NaN b = NaN"
| "ddiv a NaN = NaN"
| "ddiv (Finite x) (Finite y) =
     (if y = 0 then (if x = 0 then NaN else if 0 < x then PosInfinity else NegInfinity)
      else rnd (x / y))"
| "ddiv (Finite x) b = Finite 0"
| "ddiv a (Finite y) = (if (0 < dsgn a) = (0 \<le> y) then PosInfinity else NegInfinity)"
| "ddiv a b = NaN"

text \<open>\<^verbatim>\<open>a >= b\<close>; every comparison with NaN is false.\<close>

fun dge :: "double \<Rightarrow> double \<Rightarrow> bool" where
  "dge NaN b = False"
| "dge a NaN = False"
| "dge (Finite x) (Finite y) = (y \<le> x)"
| "dge PosInfinity b = True"
| "dge a NegInfinity = True"
| "dge a b = False"

section \<open>Core types and configuration (types.ts)\<close>

datatype DiamondRank = Paper | Bronze | Silver | Gold | Platinum | Diamond

record tier =
  maxDays :: jsnum
  multiplier :: real

record multipliers =
  PAPER :: tier
  BRONZE :: tier
  SILVER :: tier
  GOLD :: tier
  PLATINUM :: tier
  DIAMOND :: tier

record diamond_config =
  MULTIPLIERS :: multipliers
  BUNDLE_CONFIDENCE_THRESHOLD :: int
  SAME_BLOCK_THRESHOLD :: nat
  FUNDING_LOOKBACK_HOURS :: real
  REWARDS_CLAIM_COOLDOWN_DAYS :: real
  BUNDLER_REWARD_DELAY_DAYS :: real
  BUNDLER_REWARD_REDUCTION :: real

definition DIAMOND_CONFIG :: diamond_config where
  "DIAMOND_CONFIG = \<lparr>
     MULTIPLIERS = \<lparr>
       PAPER = \<lparr> maxDays = Num 7, multiplier = 1 \<rparr>,
       BRONZE = \<lparr> maxDays = Num 30, multiplier = 3 / 2 \<rparr>,
       SILVER = \<lparr> maxDays = Num 60, multiplier = 2 \<rparr>,
       GOLD = \<lparr> maxDays = Num 90, multiplier = 5 / 2 \<rparr>,
       PLATINUM = \<lparr> maxDays = Num 180, multiplier = 3 \<rparr>,
       DIAMOND = \<lparr> maxDays = Infinity, multiplier = 7 / 2 \<rparr> \<rparr>,
     BUNDLE_CONFIDENCE_THRESHOLD = 70,
     SAME_BLOCK_THRESHOLD = 3,
     FUNDING_LOOKBACK_HOURS = 24,
     REWARDS_CLAIM_COOLDOWN_DAYS = 7,
     BUNDLER_REWARD_DELAY_DAYS = 30,
     BUNDLER_REWARD_REDUCTION = 1 / 2 \<rparr>"

text \<open>
  Dates are epoch milliseconds, as \<^verbatim>\<open>Date.getTime()\<close> and \<^verbatim>\<open>Date.now()\<close> give them. The
  numbers of a holder and of a pool are finite; what is computed from them, in
  \<^verbatim>\<open>HolderRewards\<close>, is a double and may be an infinity or NaN.
\<close>

record Holder =
  wallet :: string
  launchId :: string
  balance :: real
  costBasis :: real
  firstBuyAt :: real
  lastActivityAt :: real
  holdDurationDays :: real
  diamondMultiplier :: real
  rewardsAccrued :: real
  rewardsClaimed :: real
  diamondRank :: DiamondRank
  globalHolderScore :: real

record HolderRewards =
  rw_wallet :: string
  rw_launchId :: string
  baseRewards :: double
  diamondBonus :: double
  loyaltyBonus :: double
  totalRewards :: double
  holdMultiplier :: double
  loyaltyMultiplier :: double
  claimable :: bool
  nextClaimAt :: "double option"

section \<open>Tier and rewards engine (rewards/diamond.ts)\<close>

record RewardPool =
  pool_launchId :: string
  totalPool :: real
  distributed :: real
  remaining :: real
  lastDistributionAt :: real

text \<open>\<^verbatim>\<open>getDiamondRank\<close> compares against the \<^verbatim>\<open>maxDays\<close> entries of the configuration.\<close>

definition getDiamondRank :: "real \<Rightarrow> DiamondRank" where
  "getDiamondRank holdDays =
     (let M = MULTIPLIERS DIAMOND_CONFIG in
      if js_ge (Num holdDays) (maxDays (DIAMOND M)) then Diamond
      else if js_ge (Num holdDays) (maxDays (PLATINUM M)) then Platinum
      else if js_ge (Num holdDays) (maxDays (GOLD M)) then Gold
      else if js_ge (Num holdDays) (maxDays (SILVER M)) then Silver
      else if js_ge (Num holdDays) (maxDays (BRONZE M)) then Bronze
      else Paper)"

text \<open>\<^verbatim>\<open>getMultiplier\<close> compares against literal day counts.\<close>

definition getMultiplier :: "real \<Rightarrow> real" where
  "getMultiplier holdDays =
     (let M = MULTIPLIERS DIAMOND_CONFIG in
      if holdDays \<ge> 180 then multiplier (DIAMOND M)
      else if holdDays \<ge> 90 then multiplier (PLATINUM M)
      else if holdDays \<ge> 60 then multiplier (GOLD M)
      else if holdDays \<ge> 30 then multiplier (SILVER M)
      else if holdDays \<ge> 7 then multiplier (BRONZE M)
      else multiplier (PAPER M))"

text \<open>
  \<^verbatim>\<open>calculateRewards\<close>, operation by operation in double precision, in the order in which
  the source's expressions associate. The reading of \<^verbatim>\<open>Date.now()\<close> is the parameter
  \<open>now\<close>; the multiplier that \<^verbatim>\<open>getMultiplier\<close> returns is one of the six constants of the
  configuration; \<^verbatim>\<open>nextClaimAt\<close> is the time value handed to \<^verbatim>\<open>new Date\<close>.
\<close>

definition calculateRewards :: "real \<Rightarrow> Holder \<Rightarrow> RewardPool \<Rightarrow> HolderRewards" where
  "calculateRewards now holder rewardPool =
     (let baseShare = ddiv (Finite (balance holder)) (literal 1000000000);
          baseRewards' = dmul (dmul baseShare (Finite (remaining rewardPool))) (literal (1 / 100));
          holdMultiplier' = Finite (getMultiplier (holdDurationDays holder));
          diamondBonus' = dmul baseRewards' (dsub holdMultiplier' (literal 1));
          loyaltyMultiplier' =
            dadd (literal 1) (dmul (Finite (globalHolderScore holder)) (literal (1 / 10)));
          loyaltyBonus' = dmul (dadd baseRewards' diamondBonus') (dsub loyaltyMultiplier' (literal 1));
          totalRewards' = dadd (dadd baseRewards' diamondBonus') loyaltyBonus';
          daysSinceLastClaim =
            (if rewardsClaimed holder > 0
             then ddiv (dsub (Finite now) (Finite (lastActivityAt holder)))
                    (dmul (dmul (dmul (literal 1000) (literal 60)) (literal 60)) (literal 24))
             else PosInfinity);
          claimable' = dge daysSinceLastClaim (Finite (REWARDS_CLAIM_COOLDOWN_DAYS DIAMOND_CONFIG));
          nextClaimAt' =
            (if claimable' then None
             else Some (dadd (Finite (lastActivityAt holder))
                          (dmul (dmul (dmul (dmul
                             (Finite (REWARDS_CLAIM_COOLDOWN_DAYS DIAMOND_CONFIG))
                             (literal 24)) (literal 60)) (literal 60)) (literal 1000))))
      in \<lparr> rw_wallet = wallet holder,
           rw_launchId = launchId holder,
           baseRewards = baseRewards',
           diamondBonus = diamondBonus',
           loyaltyBonus = loyaltyBonus',
           totalRewards = totalRewards',
           holdMultiplier = holdMultiplier',
           loyaltyMultiplier = loyaltyMultiplier',
           claimable = claimable',
           nextClaimAt = nextClaimAt' \<rparr>)"

text \<open>
  A holder of the whole assumed supply, 45 days in, with a global score of 1 and nothing
  claimed yet, and a pool with 1000 remaining.
\<close>

definition exampleHolder :: Holder where
  "exampleHolder =
     \<lparr> wallet = ''w'', launchId = ''l'', balance = 1000000000, costBasis = 1,
       firstBuyAt = 0, lastActivityAt = 1000, holdDurationDays = 45, diamondMultiplier = 2,
       rewardsAccrued = 0, rewardsClaimed = 0, diamondRank = Silver, globalHolderScore = 1 \<rparr>"

definition examplePool :: RewardPool where
  "examplePool = \<lparr> pool_launchId = ''l'', totalPool = 1000, distributed = 0, remaining = 1000,
                   lastDistributionAt = 0 \<rparr>"

record LaunchHistory =
  hist_launchId :: string
  holdDays :: real
  profitLoss :: real
  wasRugged :: bool
  heldThroughDip :: bool

text \<open>The body of the loop of \<^verbatim>\<open>calculateGlobalScore\<close>: the four updates of \<^verbatim>\<open>score\<close>, in order.\<close>

definition scoreLaunch :: "int \<Rightarrow> LaunchHistory \<Rightarrow> int" where
  "scoreLaunch score launch =
     (let s1 = (if holdDays launch \<ge> 180 then score + 5
                else if holdDays launch \<ge> 90 then score + 3
                else if holdDays launch \<ge> 30 then score + 1
                else score);
          s2 = (if heldThroughDip launch then s1 + 2 else s1);
          s3 = (if holdDays launch < 1 \<and> profitLoss launch > 0 then s2 - 1 else s2);
          s4 = (if wasRugged launch \<and> holdDays launch \<ge> 7 then s3 + 1 else s3)
      in s4)"

definition calculateGlobalScore :: "LaunchHistory list \<Rightarrow> int" where
  "calculateGlobalScore holderHistory = max 0 (foldl scoreLaunch 0 holderHistory)"

section \<open>Relationship graph (detector/graph.ts)\<close>

text \<open>
  A JavaScript \<^verbatim>\<open>Map\<close> iterates in insertion order and \<^verbatim>\<open>set\<close> on a present key
  keeps the key's place: an association list with \<^const>\<open>AList.update\<close>. A
  \<^verbatim>\<open>Set<string>\<close> is a list without repetition, new members appended.
\<close>

definition set_add :: "'a \<Rightarrow> 'a list \<Rightarrow> 'a list" where
  "set_add x xs = (if x \<in> set xs then xs else xs @ [x])"

record WalletNode =
  address :: string
  firstSeen :: real
  transactionCount :: nat
  totalVolume :: real
  fundingSources :: "string list"
  fundingTargets :: "string list"
  buyTimestamps :: "real list"

datatype EdgeType = funding | transfer | trade

record WalletEdge =
  edge_from :: string
  edge_to :: string
  edge_type :: EdgeType
  edge_amount :: real
  edge_timestamp :: real

type_synonym adjacency = "(string \<times> string list) list"

record WalletGraphAnalyzer =
  nodes :: "(string \<times> WalletNode) list"
  edges :: "WalletEdge list"
  adjacencyList :: adjacency

definition emptyGraph :: WalletGraphAnalyzer where
  "emptyGraph = \<lparr> nodes = [], edges = [], adjacencyList = [] \<rparr>"

text \<open>\<^verbatim>\<open>this.adjacencyList.get(w) || new Set()\<close>\<close>

definition neighborsOf :: "adjacency \<Rightarrow> string \<Rightarrow> string list" where
  "neighborsOf adj w = (case map_of adj w of None \<Rightarrow> [] | Some ns \<Rightarrow> ns)"

text \<open>\<^verbatim>\<open>if (!this.adjacencyList.has(w)) this.adjacencyList.set(w, new Set())\<close>\<close>

definition ensureKey :: "string \<Rightarrow> adjacency \<Rightarrow> adjacency" where
  "ensureKey w adj = (case map_of adj w of None \<Rightarrow> AList.update w [] adj | Some _ \<Rightarrow> adj)"

definition addEdge ::
  "string \<Rightarrow> string \<Rightarrow> EdgeType \<Rightarrow> real \<Rightarrow> real \<Rightarrow> WalletGraphAnalyzer \<Rightarrow> WalletGraphAnalyzer" where
  "addEdge from to ty amount timestamp g =
     (let es = edges g @ [\<lparr> edge_from = from, edge_to = to, edge_type = ty,
                            edge_amount = amount, edge_timestamp = timestamp \<rparr>];
          a1 = ensureKey from (adjacencyList g);
          a2 = ensureKey to a1;
          a3 = AList.update from (set_add to (neighborsOf a2 from)) a2;
          a4 = AList.update to (set_add from (neighborsOf a3 to)) a3
      in g\<lparr> edges := es, adjacencyList := a4 \<rparr>)"

definition addWallet ::
  "string \<Rightarrow> real \<Rightarrow> string list \<Rightarrow> string list \<Rightarrow> WalletGraphAnalyzer \<Rightarrow> WalletGraphAnalyzer" where
  "addWallet addr seen sources targets g =
     (let ns = (case map_of (nodes g) addr of
                  Some existing \<Rightarrow>
                    AList.update addr
                      (existing\<lparr> fundingSources := fundingSources existing @ sources,
                                 fundingTargets := fundingTargets existing @ targets,
                                 transactionCount := transactionCount existing + 1 \<rparr>)
                      (nodes g)
                | None \<Rightarrow>
                    AList.update addr
                      \<lparr> address = addr, firstSeen = seen, transactionCount = 1,
                        totalVolume = 0, fundingSources = sources,
                        fundingTargets = targets, buyTimestamps = [] \<rparr>
                      (nodes g));
          g1 = g\<lparr> nodes := ns, adjacencyList := ensureKey addr (adjacencyList g) \<rparr>;
          g2 = fold (\<lambda>source. addEdge source addr funding 0 seen) sources g1;
          g3 = fold (\<lambda>target. addEdge addr target funding 0 seen) targets g2
      in g3)"

definition recordBuy :: "string \<Rightarrow> real \<Rightarrow> real \<Rightarrow> WalletGraphAnalyzer \<Rightarrow> WalletGraphAnalyzer" where
  "recordBuy w amount timestamp g =
     (case map_of (nodes g) w of
        None \<Rightarrow> g
      | Some node \<Rightarrow>
          g\<lparr> nodes := AList.update w
                 (node\<lparr> totalVolume := totalVolume node + amount,
                         buyTimestamps := buyTimestamps node @ [timestamp] \<rparr>)
                 (nodes g) \<rparr>)"

definition clear :: "WalletGraphAnalyzer \<Rightarrow> WalletGraphAnalyzer" where
  "clear g = g\<lparr> nodes := [], edges := [], adjacencyList := [] \<rparr>"

text \<open>
  Every address that occurs in the adjacency map, as a key or as a neighbour. The
  traversals below can only mark these (and their start) as visited, which bounds them.
\<close>

definition adjNodes :: "adjacency \<Rightarrow> string set" where
  "adjNodes adj = fst ` set adj \<union> (\<Union>(k, ns) \<in> set adj. set ns)"

text \<open>
  The \<^verbatim>\<open>while (queue.length > 0)\<close> loop of \<^verbatim>\<open>areConnected\<close>: \<^verbatim>\<open>queue.shift()\<close> takes the
  head, the target test comes before the visited test, and the unvisited neighbours are
  pushed at the back in the order of the neighbour set. That this loop and the two like
  it below end on every input is proved with the other properties, further down.
\<close>

function areConnected_loop :: "adjacency \<Rightarrow> string \<Rightarrow> string set \<Rightarrow> string list \<Rightarrow> bool" where
  "areConnected_loop adj wallet2 visited [] = False"
| "areConnected_loop adj wallet2 visited (current # queue) =
     (if current = wallet2 then True
      else if current \<in> visited then areConnected_loop adj wallet2 visited queue
      else areConnected_loop adj wallet2 (insert current visited)
             (queue @ filter (\<lambda>neighbor. neighbor \<notin> insert current visited)
                        (neighborsOf adj current)))"
  by pat_completeness auto

text \<open>
  \<^verbatim>\<open>findPath\<close> runs the same loop with the path to each queued wallet beside it:
  \<^verbatim>\<open>{ wallet, path }\<close> is a pair, \<^verbatim>\<open>null\<close> is \<open>None\<close>.
\<close>

function findPath_loop ::
  "adjacency \<Rightarrow> string \<Rightarrow> string set \<Rightarrow> (string \<times> string list) list \<Rightarrow> string list option" where
  "findPath_loop adj wallet2 visited [] = None"
| "findPath_loop adj wallet2 visited ((w, path) # queue) =
     (if w = wallet2 then Some path
      else if w \<in> visited then findPath_loop adj wallet2 visited queue
      else findPath_loop adj wallet2 (insert w visited)
             (queue @ map (\<lambda>neighbor. (neighbor, path @ [neighbor]))
                        (filter (\<lambda>neighbor. neighbor \<notin> insert w visited)
                           (neighborsOf adj w))))"
  by pat_completeness auto

definition areConnected :: "WalletGraphAnalyzer \<Rightarrow> string \<Rightarrow> string \<Rightarrow> bool" where
  "areConnected g wallet1 wallet2 = areConnected_loop (adjacencyList g) wallet2 {} [wallet1]"

definition findPath :: "WalletGraphAnalyzer \<Rightarrow> string \<Rightarrow> string \<Rightarrow> string list option" where
  "findPath g wallet1 wallet2 =
     findPath_loop (adjacencyList g) wallet2 {} [(wallet1, [wallet1])]"

text \<open>
  The private \<^verbatim>\<open>bfs\<close> collects a cluster and marks its members in the \<^verbatim>\<open>visited\<close> set
  of its caller; the model returns both.
\<close>

function bfs_loop ::
  "adjacency \<Rightarrow> string set \<Rightarrow> string list \<Rightarrow> string list \<Rightarrow> string list \<times> string set" where
  "bfs_loop adj visited [] cluster = (cluster, visited)"
| "bfs_loop adj visited (current # queue) cluster =
     (if current \<in> visited then bfs_loop adj visited queue cluster
      else bfs_loop adj (insert current visited)
             (queue @ filter (\<lambda>neighbor. neighbor \<notin> insert current visited)
                        (neighborsOf adj current))
             (cluster @ [current]))"
  by pat_completeness auto

definition bfs :: "WalletGraphAnalyzer \<Rightarrow> string \<Rightarrow> string set \<Rightarrow> string list \<times> string set" where
  "bfs g start visited = bfs_loop (adjacencyList g) visited [start] []"

text \<open>
  The entries of \<^verbatim>\<open>reasons\<close> are formatted messages; the model keeps which message it
  is and the numbers put into it. \<^verbatim>\<open>clusterId\<close> is the counter behind \<^verbatim>\<open>cluster_N\<close>.
  \<^verbatim>\<open>avgAge\<close> is \<open>None\<close> where the program computes \<^verbatim>\<open>0 / 0\<close> (no member is a node).
\<close>

datatype cluster_reason =
    VeryNew real
  | New real
  | SameSource nat string
  | TightTiming real
  | RegularIntervals real
  | LargeCluster nat
  | MediumCluster nat

record ClusterResult =
  clusterId :: nat
  wallets :: "string list"
  centerWallet :: "string option"
  cl_totalVolume :: real
  avgAge :: "real option"
  suspicionScore :: int
  reasons :: "cluster_reason list"

text \<open>\<^verbatim>\<open>m.set(s, (m.get(s) || 0) + 1)\<close>\<close>

definition countInc :: "string \<Rightarrow> (string \<times> nat) list \<Rightarrow> (string \<times> nat) list" where
  "countInc s m = AList.update s ((case map_of m s of None \<Rightarrow> 0 | Some c \<Rightarrow> c) + 1) m"

text \<open>The two nested loops that fill \<^verbatim>\<open>sourceCount\<close> in \<^verbatim>\<open>analyzeCluster\<close>.\<close>

definition sourceCount :: "WalletNode list \<Rightarrow> (string \<times> nat) list" where
  "sourceCount clusterNodes =
     fold (\<lambda>node m. fold countInc (fundingSources node) m) clusterNodes []"

text \<open>The loop over \<^verbatim>\<open>sourceCount\<close>: one reason and 25 points for each entry counted 3 times or more.\<close>

definition fundingStep ::
  "string \<times> nat \<Rightarrow> cluster_reason list \<times> int \<Rightarrow> cluster_reason list \<times> int" where
  "fundingStep entry acc =
     (case entry of (source, count) \<Rightarrow>
        (case acc of (rs, score) \<Rightarrow>
           if count \<ge> 3 then (rs @ [SameSource count (take 8 source)], score + 25)
           else (rs, score)))"

definition intervalsOf :: "real list \<Rightarrow> real list" where
  "intervalsOf ts = map (\<lambda>(later, earlier). later - earlier) (zip (tl ts) ts)"

definition analyzeCluster ::
  "real \<Rightarrow> WalletGraphAnalyzer \<Rightarrow> string list \<Rightarrow> nat \<Rightarrow> ClusterResult" where
  "analyzeCluster now g ws cid =
     (let clusterNodes = List.map_filter (map_of (nodes g)) ws;
          avgAgeHours =
            (if clusterNodes = [] then None
             else Some (sum_list (map (\<lambda>n. now - firstSeen n) clusterNodes)
                          / real (length clusterNodes) / (1000 * 60 * 60)));
          acc1 = (case avgAgeHours of
                    None \<Rightarrow> ([], 0)
                  | Some h \<Rightarrow>
                      if h < 24 then ([VeryNew h], 30)
                      else if h < 168 then ([New h], 15)
                      else ([], 0));
          acc2 = fold fundingStep (sourceCount clusterNodes) acc1;
          allBuyTimestamps = sort (concat (map buyTimestamps clusterNodes));
          acc4 =
            (if length allBuyTimestamps \<ge> 3 then
               (let intervals = intervalsOf allBuyTimestamps;
                    avgInterval = sum_list intervals / real (length intervals);
                    acc3 = (if avgInterval < 60000
                            then (fst acc2 @ [TightTiming avgInterval], snd acc2 + 35)
                            else acc2);
                    variance = sum_list (map (\<lambda>i. (i - avgInterval)\<^sup>2) intervals)
                                 / real (length intervals);
                    stdDev = sqrt variance
                in if stdDev < avgInterval * (1 / 10) \<and> length intervals \<ge> 5
                   then (fst acc3 @ [RegularIntervals stdDev], snd acc3 + 25)
                   else acc3)
             else acc2);
          acc5 = (if length ws \<ge> 10 then (fst acc4 @ [LargeCluster (length ws)], snd acc4 + 20)
                  else if length ws \<ge> 5 then (fst acc4 @ [MediumCluster (length ws)], snd acc4 + 10)
                  else acc4);
          center =
            fst (fold (\<lambda>w (c, maxConnections).
                         let connections = length (neighborsOf (adjacencyList g) w)
                         in if connections > maxConnections then (Some w, connections)
                            else (c, maxConnections))
                   ws (case ws of [] \<Rightarrow> None | w # _ \<Rightarrow> Some w, 0))
      in \<lparr> clusterId = cid,
           wallets = ws,
           centerWallet = center,
           cl_totalVolume = sum_list (map totalVolume clusterNodes),
           avgAge = avgAgeHours,
           suspicionScore = min 100 (snd acc5),
           reasons = fst acc5 \<rparr>)"

text \<open>
  \<^verbatim>\<open>findClusters\<close>: one traversal from every node not yet visited, in the order of the
  node map; clusters of fewer than two wallets are dropped; the result is sorted by
  falling score (\<^verbatim>\<open>Array.prototype.sort\<close> is stable, as \<^const>\<open>sort_key\<close> is).
\<close>

definition clusterStep ::
  "real \<Rightarrow> WalletGraphAnalyzer \<Rightarrow> string \<times> WalletNode \<Rightarrow>
   string set \<times> ClusterResult list \<times> nat \<Rightarrow> string set \<times> ClusterResult list \<times> nat" where
  "clusterStep now g entry st =
     (case st of (visited, clusters, cid) \<Rightarrow>
        if fst entry \<notin> visited then
          (case bfs g (fst entry) visited of (cluster, visited') \<Rightarrow>
             if length cluster \<ge> 2
             then (visited', clusters @ [analyzeCluster now g cluster cid], cid + 1)
             else (visited', clusters, cid))
        else st)"

definition findClusters :: "real \<Rightarrow> WalletGraphAnalyzer \<Rightarrow> ClusterResult list" where
  "findClusters now g =
     (case fold (clusterStep now g) (nodes g) ({}, [], 0) of
        (visited, clusters, cid) \<Rightarrow> sort_key (\<lambda>c. - suspicionScore c) clusters)"

subsection \<open>The public operations as a history\<close>

text \<open>
  A graph state is what a sequence of calls of the public mutators leaves behind,
  starting from the empty analyzer.
\<close>

datatype graph_op =
    AddWallet string real "string list" "string list"
  | AddEdge string string EdgeType real real
  | RecordBuy string real real
  | Clear

fun applyOp :: "graph_op \<Rightarrow> WalletGraphAnalyzer \<Rightarrow> WalletGraphAnalyzer" where
  "applyOp (AddWallet addr seen sources targets) g = addWallet addr seen sources targets g"
| "applyOp (AddEdge from to ty amount timestamp) g = addEdge from to ty amount timestamp g"
| "applyOp (RecordBuy w amount timestamp) g = recordBuy w amount timestamp g"
| "applyOp Clear g = clear g"

definition runOps :: "graph_op list \<Rightarrow> WalletGraphAnalyzer" where
  "runOps ops = fold applyOp ops emptyGraph"

subsection \<open>Walks, shortest walks and the invariant of the path search\<close>

text \<open>
  A walk follows the adjacency map from each wallet to one of its neighbours; it has at
  least one wallet and one edge fewer than wallets.
\<close>

fun walk :: "adjacency \<Rightarrow> string list \<Rightarrow> bool" where
  "walk adj [] = False"
| "walk adj [x] = True"
| "walk adj (x # y # zs) = (y \<in> set (neighborsOf adj x) \<and> walk adj (y # zs))"

definition walkFromTo :: "adjacency \<Rightarrow> string \<Rightarrow> string list \<Rightarrow> string \<Rightarrow> bool" where
  "walkFromTo adj a p b = (walk adj p \<and> hd p = a \<and> last p = b)"

definition edgeCount :: "string list \<Rightarrow> nat" where
  "edgeCount p = length p - 1"

definition shortestTo :: "adjacency \<Rightarrow> string \<Rightarrow> string list \<Rightarrow> string \<Rightarrow> bool" where
  "shortestTo adj a p b =
     (walkFromTo adj a p b \<and> (\<forall>q. walkFromTo adj a q b \<longrightarrow> length p \<le> length q))"

text \<open>The adjacency map is undirected when every neighbour lists the wallet back.\<close>

definition symmetricAdj :: "adjacency \<Rightarrow> bool" where
  "symmetricAdj adj = (\<forall>u v. v \<in> set (neighborsOf adj u) \<longrightarrow> u \<in> set (neighborsOf adj v))"

text \<open>The least edge count of a walk from \<open>a\<close> to \<open>b\<close>, where there is one.\<close>

definition distance :: "adjacency \<Rightarrow> string \<Rightarrow> string \<Rightarrow> nat" where
  "distance adj a b = (LEAST n. \<exists>q. walkFromTo adj a q b \<and> edgeCount q = n)"

text \<open>
  The invariant of the loop of \<^verbatim>\<open>findPath\<close> started at \<open>a\<close>, in four parts: every queued
  path is a walk from \<open>a\<close> to its wallet; the queue is in order of length and its lengths
  differ by one at most; every reachable wallet not yet visited has, in the queue, an
  unvisited wallet with a shortest path that some shortest walk to it extends; every
  visited wallet is reached by a walk no longer than any queued path.
\<close>

definition inv_paths :: "adjacency \<Rightarrow> string \<Rightarrow> (string \<times> string list) list \<Rightarrow> bool" where
  "inv_paths adj a queue = (\<forall>e \<in> set queue. walkFromTo adj a (snd e) (fst e))"

definition inv_levels :: "(string \<times> string list) list \<Rightarrow> bool" where
  "inv_levels queue =
     (sorted (map (\<lambda>e. length (snd e)) queue)
      \<and> (\<forall>x \<in> set queue. \<forall>y \<in> set queue. length (snd x) \<le> Suc (length (snd y))))"

definition inv_frontier ::
  "adjacency \<Rightarrow> string \<Rightarrow> string set \<Rightarrow> (string \<times> string list) list \<Rightarrow> bool" where
  "inv_frontier adj a visited queue =
     (\<forall>v. v \<notin> visited \<longrightarrow> (\<exists>q. walkFromTo adj a q v) \<longrightarrow>
        (\<exists>e \<in> set queue. \<exists>r. fst e \<notin> visited \<and> walkFromTo adj (fst e) r v
                              \<and> shortestTo adj a (snd e @ tl r) v))"

definition inv_visited ::
  "adjacency \<Rightarrow> string \<Rightarrow> string set \<Rightarrow> (string \<times> string list) list \<Rightarrow> bool" where
  "inv_visited adj a visited queue =
     (\<forall>u \<in> visited. \<exists>s. walkFromTo adj a s u \<and> (\<forall>e \<in> set queue. length s \<le> length (snd e)))"

definition findPath_inv ::
  "adjacency \<Rightarrow> string \<Rightarrow> string \<Rightarrow> string set \<Rightarrow> (string \<times> string list) list \<Rightarrow> bool" where
  "findPath_inv adj a b visited queue =
     (inv_paths adj a queue \<and> inv_levels queue \<and> inv_frontier adj a visited queue
      \<and> inv_visited adj a visited queue \<and> b \<notin> visited)"

text \<open>What a visit of \<open>w\<close> pushes at the back of the queue.\<close>

abbreviation (input) newEntries ::
  "adjacency \<Rightarrow> string set \<Rightarrow> string \<Rightarrow> string list \<Rightarrow> (string \<times> string list) list" where
  "newEntries adj visited w path \<equiv>
     map (\<lambda>neighbor. (neighbor, path @ [neighbor]))
       (filter (\<lambda>neighbor. neighbor \<notin> insert w visited) (neighborsOf adj w))"

section \<open>Coordination detector (detector/bundle.ts)\<close>

datatype BundleFlagType =
    same_funding_source
  | same_block_buys
  | similar_amounts
  | new_wallet_cluster
  | timing_pattern
  | known_bundler
  | wash_trading

datatype Severity = low | medium | high | critical

datatype BundleAction = none | flag | delay_rewards | reduce_rewards | block

text \<open>
  The \<^verbatim>\<open>evidence\<close> bag of a flag, one constructor for each shape the detector writes.
  The \<^verbatim>\<open>description\<close> of a flag and the \<^verbatim>\<open>reason\<close> of a penalty are formatted
  messages and are left out of the model; evidence carries the same numbers.
\<close>

datatype Evidence =
    SameBlockEvidence nat int
  | FundingEvidence "string option" nat
  | NewWalletEvidence real nat
  | AmountEvidence real nat
  | TimingEvidence bool "real option"

record BundleFlag =
  flag_type :: BundleFlagType
  severity :: Severity
  evidence :: "Evidence option"

record BundlePenalty =
  penalty_action :: BundleAction
  rewardDelayDays :: "real option"
  rewardReductionPercent :: "real option"

record BundleAnalysis =
  transactionSignature :: string
  analysis_launchId :: string
  isBundled :: bool
  confidence :: int
  flags :: "BundleFlag list"
  relatedWallets :: "string list"
  fundingSource :: "string option"
  action :: BundleAction
  penaltyApplied :: "BundlePenalty option"

record BuyRecord =
  signature :: string
  buy_wallet :: string
  amount :: real
  slot :: int
  timestamp :: real
  buy_launchId :: string

record WalletHistory =
  wh_address :: string
  wh_fundingSources :: "string list"
  firstTxTimestamp :: real
  totalTxCount :: nat
  recentBuys :: "BuyRecord list"

text \<open>
  What the detector reads of the ledger client (\<^verbatim>\<open>Connection\<close> of the web3 library, not
  part of this repository): a parsed transaction with its slot, account keys,
  instructions and balances, and the signature list of an address. A call either throws
  (\<open>Inl\<close>) or returns; \<^verbatim>\<open>getParsedTransaction\<close> returns \<^verbatim>\<open>null\<close> (\<open>None\<close>) for a
  signature it does not find. An address that \<^verbatim>\<open>new PublicKey\<close> rejects is a throwing
  call of \<^verbatim>\<open>getSignaturesForAddress\<close>. Within one evaluation the client answers as a
  function, and \<^verbatim>\<open>Date.now()\<close> reads the one time \<open>now\<close>.
\<close>

datatype error = RpcError | TypeError

datatype Instruction =
    ParsedInstruction string string string
  | PartiallyDecodedInstruction

record TxMeta =
  preBalances :: "real list"
  postBalances :: "real list"

record ParsedTransaction =
  tx_slot :: int
  accountKeys :: "string list"
  instructions :: "Instruction list"
  meta :: "TxMeta option"

record SignatureInfo =
  sig_signature :: string
  blockTime :: "real option"

record Connection =
  getParsedTransaction :: "string \<Rightarrow> error + ParsedTransaction option"
  getSignaturesForAddress :: "string \<Rightarrow> nat \<Rightarrow> error + SignatureInfo list"

record BundleDetector =
  connection :: Connection
  knownBundlers :: "string list"
  walletCache :: "string \<Rightarrow> WalletHistory option"

record FundingAnalysis =
  sharedSource :: bool
  fa_source :: "string option"
  relatedCount :: nat
  fa_relatedWallets :: "string list"

text \<open>The funding sources one transaction contributes: the sources of its transfers into \<open>w\<close>.\<close>

fun transferSources :: "string \<Rightarrow> Instruction list \<Rightarrow> string list" where
  "transferSources w [] = []"
| "transferSources w (ParsedInstruction ty src dst # ixs) =
     (if ty = ''transfer'' \<and> dst = w then src # transferSources w ixs
      else transferSources w ixs)"
| "transferSources w (PartiallyDecodedInstruction # ixs) = transferSources w ixs"

text \<open>The loop over the signatures; a throwing lookup leaves the loop for the \<^verbatim>\<open>catch\<close>.\<close>

fun collectFunding :: "Connection \<Rightarrow> string \<Rightarrow> SignatureInfo list \<Rightarrow> error + string list" where
  "collectFunding conn w [] = Inr []"
| "collectFunding conn w (sg # sgs) =
     (case getParsedTransaction conn (sig_signature sg) of
        Inl e \<Rightarrow> Inl e
      | Inr None \<Rightarrow> collectFunding conn w sgs
      | Inr (Some tx) \<Rightarrow>
          (case collectFunding conn w sgs of
             Inl e \<Rightarrow> Inl e
           | Inr rest \<Rightarrow> Inr (transferSources w (instructions tx) @ rest)))"

text \<open>The most frequent source: the first entry of the count map that beats all before it.\<close>

definition topSourceOf :: "(string \<times> nat) list \<Rightarrow> string option" where
  "topSourceOf counts =
     fst (fold (\<lambda>(source, count) (top, topCount).
                  if count > topCount then (Some source, count) else (top, topCount))
            counts (None, 0))"

definition analyzeFundingSources :: "BundleDetector \<Rightarrow> string \<Rightarrow> string list \<Rightarrow> FundingAnalysis" where
  "analyzeFundingSources d w otherBuyers =
     (let caught = \<lparr> sharedSource = False, fa_source = None, relatedCount = 0,
                     fa_relatedWallets = [] \<rparr>
      in case getSignaturesForAddress (connection d) w 20 of
           Inl e \<Rightarrow> caught
         | Inr signatures \<Rightarrow>
             (case collectFunding (connection d) w signatures of
                Inl e \<Rightarrow> caught
              | Inr sources \<Rightarrow>
                  (let related =
                         filter (\<lambda>buyer. case walletCache d buyer of
                                           None \<Rightarrow> False
                                         | Some h \<Rightarrow> \<exists>s \<in> set (wh_fundingSources h). s \<in> set sources)
                           otherBuyers
                   in \<lparr> sharedSource = (length related > 0),
                        fa_source = topSourceOf (fold countInc sources []),
                        relatedCount = length related,
                        fa_relatedWallets = related \<rparr>)))"

text \<open>\<^verbatim>\<open>getWalletAge\<close>, in hours; \<^verbatim>\<open>blockTime || 0\<close> reads a missing block time as 0.\<close>

definition getWalletAge :: "real \<Rightarrow> BundleDetector \<Rightarrow> string \<Rightarrow> real" where
  "getWalletAge now d w =
     (case getSignaturesForAddress (connection d) w 1 of
        Inl e \<Rightarrow> 0
      | Inr signatures \<Rightarrow>
          if signatures = [] then 0
          else (let firstTx = last signatures;
                    ageMs = now - (case blockTime firstTx of None \<Rightarrow> 0 | Some t \<Rightarrow> t) * 1000
                in ageMs / (1000 * 60 * 60)))"

definition countNewWalletBuyers :: "real \<Rightarrow> BundleDetector \<Rightarrow> BuyRecord list \<Rightarrow> real \<Rightarrow> nat" where
  "countNewWalletBuyers now d buys maxAgeHours =
     length (filter (\<lambda>buy. getWalletAge now d (buy_wallet buy) < maxAgeHours) (take 20 buys))"

text \<open>\<^verbatim>\<open>tx.meta?.preBalances?.[0] || 0\<close>\<close>

definition firstBalance :: "TxMeta option \<Rightarrow> (TxMeta \<Rightarrow> real list) \<Rightarrow> real" where
  "firstBalance m field =
     (case m of None \<Rightarrow> 0 | Some mt \<Rightarrow> (case field mt of [] \<Rightarrow> 0 | b # _ \<Rightarrow> b))"

definition extractBuyAmount :: "ParsedTransaction \<Rightarrow> real" where
  "extractBuyAmount tx =
     (firstBalance (meta tx) preBalances - firstBalance (meta tx) postBalances) / 1000000000"

record TimingPattern =
  detected :: bool
  intervalMs :: "real option"

definition detectTimingPattern :: "BuyRecord list \<Rightarrow> TimingPattern" where
  "detectTimingPattern buys =
     (if length buys < 5 then \<lparr> detected = False, intervalMs = None \<rparr>
      else (let sorted = sort_key timestamp buys;
                intervals = intervalsOf (map timestamp sorted);
                avgInterval = sum_list intervals / real (length intervals);
                variance = sum_list (map (\<lambda>i. (i - avgInterval)\<^sup>2) intervals)
                             / real (length intervals);
                stdDev = sqrt variance;
                isRegular = (stdDev < avgInterval * (1 / 10))
            in \<lparr> detected = (isRegular \<and> avgInterval < 60000),
                 intervalMs = (if isRegular then Some avgInterval else None) \<rparr>))"

definition severityWeights :: "Severity \<Rightarrow> int" where
  "severityWeights s = (case s of critical \<Rightarrow> 40 | high \<Rightarrow> 25 | medium \<Rightarrow> 15 | low \<Rightarrow> 5)"

definition calculateConfidence :: "BundleFlag list \<Rightarrow> int" where
  "calculateConfidence fs =
     (if length fs = 0 then 0
      else min 100 (fold (\<lambda>f score. score + severityWeights (severity f)) fs 0))"

definition determineAction :: "int \<Rightarrow> BundleFlag list \<Rightarrow> BundleAction" where
  "determineAction conf fs =
     (if \<exists>f \<in> set fs. flag_type f = known_bundler then block
      else if conf \<ge> 90 then block
      else if conf \<ge> 70 then reduce_rewards
      else if conf \<ge> 50 then delay_rewards
      else if conf \<ge> 30 then flag
      else none)"

definition determinePenalty :: "BundleAction \<Rightarrow> BundleFlag list \<Rightarrow> BundlePenalty option" where
  "determinePenalty act fs =
     (case act of
        block \<Rightarrow>
          Some \<lparr> penalty_action = block, rewardDelayDays = None, rewardReductionPercent = None \<rparr>
      | reduce_rewards \<Rightarrow>
          Some \<lparr> penalty_action = reduce_rewards, rewardDelayDays = None,
                 rewardReductionPercent = Some (BUNDLER_REWARD_REDUCTION DIAMOND_CONFIG * 100) \<rparr>
      | delay_rewards \<Rightarrow>
          Some \<lparr> penalty_action = delay_rewards,
                 rewardDelayDays = Some (BUNDLER_REWARD_DELAY_DAYS DIAMOND_CONFIG),
                 rewardReductionPercent = None \<rparr>
      | _ \<Rightarrow> None)"

text \<open>\<^verbatim>\<open>[...new Set(relatedWallets)]\<close> keeps the first occurrence of each wallet.\<close>

definition createAnalysis ::
  "string \<Rightarrow> string \<Rightarrow> bool \<Rightarrow> int \<Rightarrow> BundleFlag list \<Rightarrow> BundleAction \<Rightarrow> string list \<Rightarrow>
   string option \<Rightarrow> BundlePenalty option \<Rightarrow> BundleAnalysis" where
  "createAnalysis sg lid bundled conf fs act related src pen =
     \<lparr> transactionSignature = sg,
       analysis_launchId = lid,
       isBundled = bundled,
       confidence = conf,
       flags = fs,
       relatedWallets = fold set_add related [],
       fundingSource = src,
       action = act,
       penaltyApplied = pen \<rparr>"

text \<open>
  \<^verbatim>\<open>analyzeTransaction\<close>. The first lookup is outside any \<^verbatim>\<open>try\<close>: a throw there, or a
  transaction without account keys, reaches the caller. The result is the analysis and
  the detector with its registry of known bundlers as the evaluation leaves it.
\<close>

definition analyzeTransaction ::
  "real \<Rightarrow> BundleDetector \<Rightarrow> string \<Rightarrow> string \<Rightarrow> BuyRecord list \<Rightarrow>
   error + (BundleAnalysis \<times> BundleDetector)" where
  "analyzeTransaction now d sg lid buys =
     (case getParsedTransaction (connection d) sg of
        Inl e \<Rightarrow> Inl e
      | Inr None \<Rightarrow> Inr (createAnalysis sg lid False 0 [] none [] None None, d)
      | Inr (Some tx) \<Rightarrow>
          (case accountKeys tx of
             [] \<Rightarrow> Inl TypeError
           | buyerWallet # _ \<Rightarrow>
               (let flags1 =
                      (if buyerWallet \<in> set (knownBundlers d)
                       then [\<lparr> flag_type = known_bundler, severity = critical, evidence = None \<rparr>]
                       else []);
                    sameBlockBuys =
                      filter (\<lambda>b. slot b = tx_slot tx \<and> buy_wallet b \<noteq> buyerWallet) buys;
                    sameBlock = (length sameBlockBuys \<ge> SAME_BLOCK_THRESHOLD DIAMOND_CONFIG);
                    flags2 =
                      (if sameBlock
                       then flags1 @ [\<lparr> flag_type = same_block_buys, severity = high,
                                        evidence = Some (SameBlockEvidence
                                                           (length sameBlockBuys + 1) (tx_slot tx)) \<rparr>]
                       else flags1);
                    related2 = (if sameBlock then map buy_wallet sameBlockBuys else []);
                    fundingAnalysis = analyzeFundingSources d buyerWallet (map buy_wallet buys);
                    flags3 =
                      (if sharedSource fundingAnalysis
                       then flags2 @ [\<lparr> flag_type = same_funding_source, severity = high,
                                        evidence = Some (FundingEvidence (fa_source fundingAnalysis)
                                                           (relatedCount fundingAnalysis)) \<rparr>]
                       else flags2);
                    related3 =
                      (if sharedSource fundingAnalysis
                       then related2 @ fa_relatedWallets fundingAnalysis else related2);
                    walletAge = getWalletAge now d buyerWallet;
                    newWalletBuyers = countNewWalletBuyers now d buys 24;
                    flags4 =
                      (if walletAge < 24 \<and> newWalletBuyers \<ge> 5
                       then flags3 @ [\<lparr> flag_type = new_wallet_cluster, severity = medium,
                                        evidence = Some (NewWalletEvidence walletAge
                                                           newWalletBuyers) \<rparr>]
                       else flags3);
                    buyAmount = extractBuyAmount tx;
                    similarAmountBuys =
                      filter (\<lambda>b. buyAmount \<noteq> 0
                                   \<and> \<bar>amount b - buyAmount\<bar> / buyAmount < 5 / 100) buys;
                    flags5 =
                      (if length similarAmountBuys \<ge> 3
                       then flags4 @ [\<lparr> flag_type = similar_amounts, severity = medium,
                                        evidence = Some (AmountEvidence buyAmount
                                                           (length similarAmountBuys)) \<rparr>]
                       else flags4);
                    timingPattern = detectTimingPattern buys;
                    flags6 =
                      (if detected timingPattern
                       then flags5 @ [\<lparr> flag_type = timing_pattern, severity = medium,
                                        evidence = Some (TimingEvidence (detected timingPattern)
                                                           (intervalMs timingPattern)) \<rparr>]
                       else flags5);
                    conf = calculateConfidence flags6;
                    bundled = (conf \<ge> BUNDLE_CONFIDENCE_THRESHOLD DIAMOND_CONFIG);
                    act = determineAction conf flags6;
                    penalty = determinePenalty act flags6;
                    d' = (if conf \<ge> 90
                          then d\<lparr> knownBundlers :=
                                    fold set_add related3 (set_add buyerWallet (knownBundlers d)) \<rparr>
                          else d)
                in Inr (createAnalysis sg lid bundled conf flags6 act related3
                          (fa_source fundingAnalysis) penalty, d'))))"

definition addKnownBundler :: "string \<Rightarrow> BundleDetector \<Rightarrow> BundleDetector" where
  "addKnownBundler w d = d\<lparr> knownBundlers := set_add w (knownBundlers d) \<rparr>"

definition getKnownBundlers :: "BundleDetector \<Rightarrow> string list" where
  "getKnownBundlers d = knownBundlers d"

subsection \<open>Concrete inputs\<close>

text \<open>
  A ledger client that knows one transaction, signed \<open>sig\<close>: wallet \<open>W\<close> pays one unit
  (a billion lamports) in slot 7. It has no signature list for any address. Three buys by
  other wallets in the same slot, for the same amount.
\<close>

definition exampleTx :: ParsedTransaction where
  "exampleTx = \<lparr> tx_slot = 7, accountKeys = [''W'', ''P''], instructions = [],
                 meta = Some \<lparr> preBalances = [2000000000], postBalances = [1000000000] \<rparr> \<rparr>"

definition exampleConnection :: Connection where
  "exampleConnection =
     \<lparr> getParsedTransaction = (\<lambda>s. if s = ''sig'' then Inr (Some exampleTx) else Inr None),
       getSignaturesForAddress = (\<lambda>w limit. Inr []) \<rparr>"

definition exampleDetector :: BundleDetector where
  "exampleDetector = \<lparr> connection = exampleConnection, knownBundlers = [],
                       walletCache = (\<lambda>w. None) \<rparr>"

definition exampleBuy :: "string \<Rightarrow> BuyRecord" where
  "exampleBuy w = \<lparr> signature = w, buy_wallet = w, amount = 1, slot = 7, timestamp = 0,
                    buy_launchId = ''launch'' \<rparr>"

definition exampleBuys :: "BuyRecord list" where
  "exampleBuys = [exampleBuy ''X'', exampleBuy ''Y'', exampleBuy ''Z'']"

section \<open>Termination of the traversals\<close>

lemma neighborsOf_notin: "w \<notin> adjNodes adj \<Longrightarrow> neighborsOf adj w = []"
proof -
  assume "w \<notin> adjNodes adj"
  then have "map_of adj w = None"
    by (simp add: adjNodes_def map_of_eq_None_iff)
  then show ?thesis by (simp add: neighborsOf_def)
qed

lemma finite_adjNodes: "finite (adjNodes adj)"
  unfolding adjNodes_def by auto

lemma card_unvisited_less:
  "w \<in> adjNodes adj \<Longrightarrow> w \<notin> visited \<Longrightarrow>
   card (adjNodes adj - insert w visited) < card (adjNodes adj - visited)"
  by (rule psubset_card_mono) (auto simp: finite_adjNodes)

lemma unvisited_notin:
  "w \<notin> adjNodes adj \<Longrightarrow> adjNodes adj - insert w visited = adjNodes adj - visited"
  by auto

text \<open>
  A step that visits a wallet either marks one more address of the adjacency map, or the
  wallet is unknown to the map, has no neighbours, and the queue gets shorter.
\<close>

lemma visit_decreases:
  assumes "w \<notin> visited"
  shows "((card (adjNodes adj - insert w visited),
           length (queue @ map f (filter P (neighborsOf adj w)))),
          (card (adjNodes adj - visited), Suc (length queue)))
         \<in> less_than <*lex*> less_than"
proof (cases "w \<in> adjNodes adj")
  case True
  with assms have "card (adjNodes adj - insert w visited) < card (adjNodes adj - visited)"
    by (intro card_unvisited_less)
  then show ?thesis
    unfolding in_lex_prod less_than_iff by blast
next
  case False
  have "neighborsOf adj w = []"
    using False by (rule neighborsOf_notin)
  moreover have "adjNodes adj - insert w visited = adjNodes adj - visited"
    using False by (rule unvisited_notin)
  ultimately show ?thesis
    unfolding in_lex_prod less_than_iff by simp
qed

termination areConnected_loop
proof (relation "inv_image (less_than <*lex*> less_than)
          (\<lambda>(adj, wallet2, visited, queue). (card (adjNodes adj - visited), length queue))",
       goal_cases)
  case 1
  show ?case by (intro wf_inv_image wf_lex_prod wf_less_than)
next
  case (2 adj wallet2 visited current queue)
  then show ?case by simp
next
  case (3 adj wallet2 visited current queue)
  then show ?case
    using visit_decreases [of current visited adj queue "\<lambda>n. n"]
    by (simp del: in_lex_prod)
qed

termination findPath_loop
proof (relation "inv_image (less_than <*lex*> less_than)
          (\<lambda>(adj, wallet2, visited, queue). (card (adjNodes adj - visited), length queue))",
       goal_cases)
  case 1
  show ?case by (intro wf_inv_image wf_lex_prod wf_less_than)
next
  case (2 adj wallet2 visited w path queue)
  then show ?case by simp
next
  case (3 adj wallet2 visited w path queue)
  then show ?case
    using visit_decreases [of w visited adj queue "\<lambda>n. (n, path @ [n])"]
    by (simp del: in_lex_prod)
qed

termination bfs_loop
proof (relation "inv_image (less_than <*lex*> less_than)
          (\<lambda>(adj, visited, queue, cluster). (card (adjNodes adj - visited), length queue))",
       goal_cases)
  case 1
  show ?case by (intro wf_inv_image wf_lex_prod wf_less_than)
next
  case (2 adj visited current queue cluster)
  then show ?case by simp
next
  case (3 adj visited current queue cluster)
  then show ?case
    using visit_decreases [of current visited adj queue "\<lambda>n. n"]
    by (simp del: in_lex_prod)
qed

section \<open>Relationship graph: connectivity and paths\<close>

text \<open>
  C10: for every wallet address \<open>a\<close> and every graph, also one in which \<open>a\<close> was never
  added, \<^verbatim>\<open>areConnected(a, a)\<close> is true and \<^verbatim>\<open>findPath(a, a)\<close> is the one-element
  path \<open>[a]\<close>.
\<close>

theorem C10_self_connected:
  "areConnected g a a \<and> findPath g a a = Some [a]"
  by (simp add: areConnected_def findPath_def)

subsection \<open>Evaluation of concrete graphs\<close>

lemmas graph_eval = runOps_def emptyGraph_def addWallet_def addEdge_def recordBuy_def ensureKey_def
  neighborsOf_def set_add_def Let_def

lemmas cluster_eval = findClusters_def clusterStep_def bfs_def analyzeCluster_def sourceCount_def
  countInc_def fundingStep_def intervalsOf_def List.map_filter_def

subsection \<open>The adjacency view is undirected\<close>

text \<open>
  \<^verbatim>\<open>addEdge\<close> enters each edge in both neighbour sets, so in every state the operations
  build, the walks of the adjacency map are the walks of an undirected graph.
\<close>

lemma neighborsOf_update:
  "neighborsOf (AList.update k ns adj) u = (if u = k then ns else neighborsOf adj u)"
  by (simp add: neighborsOf_def update_conv')

lemma neighborsOf_ensureKey: "neighborsOf (ensureKey k adj) u = neighborsOf adj u"
  by (simp add: ensureKey_def neighborsOf_def update_conv' split: option.splits)

lemma set_set_add: "set (set_add x xs) = insert x (set xs)"
  by (auto simp: set_add_def)

lemma neighbors_addEdge:
  "set (neighborsOf (adjacencyList (addEdge src dst ty amt ts g)) u)
   = set (neighborsOf (adjacencyList g) u)
       \<union> (if u = src then {dst} else {}) \<union> (if u = dst then {src} else {})"
  by (auto simp: addEdge_def Let_def neighborsOf_update neighborsOf_ensureKey set_set_add)

lemma symmetric_addEdge:
  "symmetricAdj (adjacencyList g) \<Longrightarrow> symmetricAdj (adjacencyList (addEdge src dst ty amt ts g))"
  unfolding symmetricAdj_def neighbors_addEdge by auto

lemma symmetric_fold_addEdge:
  "symmetricAdj (adjacencyList g) \<Longrightarrow>
   symmetricAdj (adjacencyList (fold (\<lambda>x. addEdge (f x) (h x) ty amt ts) xs g))"
  by (induction xs arbitrary: g) (simp_all add: symmetric_addEdge)

lemma symmetric_ensureKey: "symmetricAdj adj \<Longrightarrow> symmetricAdj (ensureKey k adj)"
  by (simp add: symmetricAdj_def neighborsOf_ensureKey)

lemma symmetric_addWallet:
  "symmetricAdj (adjacencyList g) \<Longrightarrow>
   symmetricAdj (adjacencyList (addWallet addr seen sources targets g))"
  unfolding addWallet_def Let_def
  by (intro symmetric_fold_addEdge) (simp add: symmetric_ensureKey)

lemma symmetric_recordBuy:
  "symmetricAdj (adjacencyList g) \<Longrightarrow> symmetricAdj (adjacencyList (recordBuy w amt ts g))"
  by (simp add: recordBuy_def split: option.splits)

lemma runOps_snoc: "runOps (ops @ [x]) = applyOp x (runOps ops)"
  by (simp add: runOps_def)

lemma symmetric_runOps: "symmetricAdj (adjacencyList (runOps ops))"
proof (induction ops rule: rev_induct)
  case Nil
  show ?case by (simp add: runOps_def emptyGraph_def symmetricAdj_def neighborsOf_def)
next
  case (snoc x ops)
  show ?case
  proof (cases x)
    case (AddWallet addr seen sources targets)
    with snoc show ?thesis by (simp add: runOps_snoc symmetric_addWallet)
  next
    case (AddEdge src dst ty amt ts)
    with snoc show ?thesis by (simp add: runOps_snoc symmetric_addEdge)
  next
    case (RecordBuy w amt ts)
    with snoc show ?thesis by (simp add: runOps_snoc symmetric_recordBuy)
  next
    case Clear
    then show ?thesis
      by (simp add: runOps_snoc clear_def symmetricAdj_def neighborsOf_def)
  qed
qed

subsection \<open>Walks\<close>

lemma walk_nonempty: "walk adj p \<Longrightarrow> p \<noteq> []"
  by (cases p) auto

lemma walk_append_tl:
  "walk adj p \<Longrightarrow> walk adj r \<Longrightarrow> last p = hd r \<Longrightarrow> walk adj (p @ tl r)"
proof (induction adj p rule: walk.induct)
  case (1 adj)
  then show ?case by simp
next
  case (2 adj x)
  then show ?case by (cases r) auto
next
  case (3 adj x y zs)
  then show ?case by simp
qed

lemma walk_Cons_tail:
  "walk adj (x # r) \<Longrightarrow> r \<noteq> [] \<Longrightarrow> hd r \<in> set (neighborsOf adj x) \<and> walk adj r"
  by (cases r) auto

lemma walkFromTo_self: "walkFromTo adj a [a] a"
  by (simp add: walkFromTo_def)

lemma walkFromTo_append:
  assumes "walkFromTo adj a p w" and "walkFromTo adj w r v"
  shows "walkFromTo adj a (p @ tl r) v"
proof -
  from assms have p: "walk adj p" "p \<noteq> []" "hd p = a" "last p = w"
    and r: "walk adj r" "r \<noteq> []" "hd r = w" "last r = v"
    by (auto simp: walkFromTo_def walk_nonempty)
  have "walk adj (p @ tl r)"
    using p r by (intro walk_append_tl) simp_all
  moreover have "hd (p @ tl r) = a"
    using p by simp
  moreover have "last (p @ tl r) = v"
  proof (cases "tl r = []")
    case True
    then have "r = [w]" using r by (cases r) auto
    then show ?thesis using p r True by simp
  next
    case False
    then show ?thesis using r by (simp add: last_tl)
  qed
  ultimately show ?thesis by (simp add: walkFromTo_def)
qed

lemma walkFromTo_snoc:
  assumes "walkFromTo adj a p w" and "n \<in> set (neighborsOf adj w)"
  shows "walkFromTo adj a (p @ [n]) n"
proof -
  have "walkFromTo adj w [w, n] n"
    using assms(2) by (simp add: walkFromTo_def)
  from walkFromTo_append [OF assms(1) this] show ?thesis by simp
qed

lemma walkFromTo_first_step:
  assumes "walkFromTo adj w r v" and "v \<noteq> w"
  obtains r' where "r = w # r'" and "hd r' \<in> set (neighborsOf adj w)"
    and "walkFromTo adj (hd r') r' v"
proof -
  from assms(1) have r: "walk adj r" "r \<noteq> []" "hd r = w" "last r = v"
    by (auto simp: walkFromTo_def walk_nonempty)
  then obtain r' where eq: "r = w # r'" by (cases r) auto
  with r assms(2) have ne: "r' \<noteq> []" by auto
  from walk_Cons_tail [of adj w r'] r eq ne
  have "hd r' \<in> set (neighborsOf adj w)" and "walk adj r'" by auto
  moreover have "last r' = v" using r eq ne by simp
  ultimately show ?thesis using eq that by (simp add: walkFromTo_def)
qed

lemma exists_shortest:
  assumes "walkFromTo adj a q v"
  shows "\<exists>p. shortestTo adj a p v"
proof -
  let ?P = "\<lambda>p. walkFromTo adj a p v"
  from arg_min_nat_lemma [of ?P q length] assms
  have "?P (arg_min length ?P) \<and> (\<forall>y. ?P y \<longrightarrow> length (arg_min length ?P) \<le> length y)"
    by blast
  then show ?thesis unfolding shortestTo_def by blast
qed

lemma shortestTo_same_length:
  assumes "shortestTo adj a p v" and "walkFromTo adj a p' v" and "length p' \<le> length p"
  shows "shortestTo adj a p' v"
  using assms unfolding shortestTo_def by (meson le_trans)

subsection \<open>The invariant of the path search\<close>

lemma inv_init: "findPath_inv adj a b {} [(a, [a])]"
proof -
  have "inv_frontier adj a {} [(a, [a])]"
    unfolding inv_frontier_def
  proof (intro allI impI)
    fix v
    assume "\<exists>q. walkFromTo adj a q v"
    then obtain p where p: "shortestTo adj a p v"
      using exists_shortest by blast
    then have w: "walkFromTo adj a p v" by (simp add: shortestTo_def)
    then have "p \<noteq> []" "hd p = a" by (auto simp: walkFromTo_def walk_nonempty)
    then have "[a] @ tl p = p" by (cases p) auto
    with p w show "\<exists>e\<in>set [(a, [a])]. \<exists>r. fst e \<notin> {} \<and> walkFromTo adj (fst e) r v
                       \<and> shortestTo adj a (snd e @ tl r) v"
      by auto
  qed
  then show ?thesis
    by (simp add: findPath_inv_def inv_paths_def inv_levels_def inv_visited_def walkFromTo_self)
qed

lemma inv_levels_head:
  assumes "inv_levels ((w, path) # queue)" and "e \<in> set queue"
  shows "length path \<le> length (snd e)" and "length (snd e) \<le> Suc (length path)"
  using assms unfolding inv_levels_def by auto

lemma inv_skip:
  assumes inv: "findPath_inv adj a b visited ((w, path) # queue)" and vis: "w \<in> visited"
  shows "findPath_inv adj a b visited queue"
proof -
  from inv have P: "inv_paths adj a ((w, path) # queue)"
    and L: "inv_levels ((w, path) # queue)"
    and F: "inv_frontier adj a visited ((w, path) # queue)"
    and V: "inv_visited adj a visited ((w, path) # queue)"
    and B: "b \<notin> visited"
    by (simp_all add: findPath_inv_def)
  have "inv_paths adj a queue"
    using P by (simp add: inv_paths_def)
  moreover have "inv_levels queue"
    using L by (simp add: inv_levels_def)
  moreover have "inv_frontier adj a visited queue"
    unfolding inv_frontier_def
  proof (intro allI impI)
    fix v
    assume "v \<notin> visited" and "\<exists>q. walkFromTo adj a q v"
    with F obtain e r where e: "e \<in> set ((w, path) # queue)" "fst e \<notin> visited"
      "walkFromTo adj (fst e) r v" "shortestTo adj a (snd e @ tl r) v"
      unfolding inv_frontier_def by blast
    from e(1,2) vis have "e \<in> set queue" by auto
    with e show "\<exists>e\<in>set queue. \<exists>r. fst e \<notin> visited \<and> walkFromTo adj (fst e) r v
                    \<and> shortestTo adj a (snd e @ tl r) v"
      by blast
  qed
  moreover have "inv_visited adj a visited queue"
    using V unfolding inv_visited_def by (meson list.set_intros(2))
  ultimately show ?thesis using B by (simp add: findPath_inv_def)
qed

lemma inv_found:
  assumes inv: "findPath_inv adj a b visited ((b, path) # queue)"
  shows "shortestTo adj a path b"
proof -
  from inv have P: "inv_paths adj a ((b, path) # queue)"
    and L: "inv_levels ((b, path) # queue)"
    and F: "inv_frontier adj a visited ((b, path) # queue)"
    and B: "b \<notin> visited"
    by (simp_all add: findPath_inv_def)
  from P have w: "walkFromTo adj a path b" by (simp add: inv_paths_def)
  with F B obtain e r where e: "e \<in> set ((b, path) # queue)"
      "walkFromTo adj (fst e) r b" "shortestTo adj a (snd e @ tl r) b"
    unfolding inv_frontier_def by blast
  have "length path \<le> length (snd e)"
  proof (cases "e = (b, path)")
    case True
    then show ?thesis by simp
  next
    case False
    with e(1) have "e \<in> set queue" by simp
    with L show ?thesis by (rule inv_levels_head)
  qed
  then have "length path \<le> length (snd e @ tl r)" by simp
  with e(3) w show ?thesis by (rule shortestTo_same_length)
qed

lemma newEntries_set:
  "e \<in> set (newEntries adj visited w path) \<longleftrightarrow>
   (\<exists>n. e = (n, path @ [n]) \<and> n \<in> set (neighborsOf adj w) \<and> n \<noteq> w \<and> n \<notin> visited)"
  by auto

lemma inv_visit_paths:
  assumes "inv_paths adj a ((w, path) # queue)"
  shows "inv_paths adj a (queue @ newEntries adj visited w path)"
proof -
  from assms have head: "walkFromTo adj a path w"
    and rest: "\<forall>e \<in> set queue. walkFromTo adj a (snd e) (fst e)"
    by (simp_all add: inv_paths_def)
  have "walkFromTo adj a (snd e) (fst e)" if "e \<in> set (newEntries adj visited w path)" for e
  proof -
    from that obtain n where "e = (n, path @ [n])" "n \<in> set (neighborsOf adj w)"
      unfolding newEntries_set by blast
    with head show ?thesis by (simp add: walkFromTo_snoc)
  qed
  with rest show ?thesis
    unfolding inv_paths_def set_append by blast
qed

lemma inv_visit_levels:
  assumes L: "inv_levels ((w, path) # queue)"
  shows "inv_levels (queue @ newEntries adj visited w path)"
proof -
  let ?new = "newEntries adj visited w path"
  have new: "length (snd e) = Suc (length path)" if "e \<in> set ?new" for e
    using that by auto
  have old: "length path \<le> length (snd e) \<and> length (snd e) \<le> Suc (length path)"
    if "e \<in> set queue" for e
    using inv_levels_head [OF L that] by simp
  have "sorted (map (\<lambda>e. length (snd e)) queue)"
    using L by (simp add: inv_levels_def)
  moreover have "sorted (map (\<lambda>e. length (snd e)) ?new)"
  proof -
    have "map (\<lambda>e. length (snd e)) ?new = replicate (length ?new) (Suc (length path))"
      by (simp add: comp_def map_replicate_const)
    then show ?thesis by (simp only: sorted_replicate)
  qed
  ultimately have "sorted (map (\<lambda>e. length (snd e)) (queue @ ?new))"
    using new old unfolding map_append sorted_append by fastforce
  moreover have "length (snd x) \<le> Suc (length (snd y))"
    if "x \<in> set (queue @ ?new)" and "y \<in> set (queue @ ?new)" for x y
  proof -
    have "length (snd x) \<le> Suc (length path)"
      using that(1) new [of x] old [of x] unfolding set_append by fastforce
    moreover have "length path \<le> length (snd y)"
      using that(2) new [of y] old [of y] unfolding set_append by fastforce
    ultimately show ?thesis by simp
  qed
  ultimately show ?thesis unfolding inv_levels_def by blast
qed

lemma inv_visit_visited:
  assumes P: "inv_paths adj a ((w, path) # queue)"
    and L: "inv_levels ((w, path) # queue)"
    and V: "inv_visited adj a visited ((w, path) # queue)"
  shows "inv_visited adj a (insert w visited) (queue @ newEntries adj visited w path)"
  unfolding inv_visited_def
proof
  let ?new = "newEntries adj visited w path"
  fix u
  assume u: "u \<in> insert w visited"
  have bound: "length path \<le> length (snd e)" if "e \<in> set (queue @ ?new)" for e
  proof (cases "e \<in> set queue")
    case True
    with L show ?thesis by (rule inv_levels_head)
  next
    case False
    with that have "e \<in> set ?new" by simp
    then show ?thesis by auto
  qed
  have "\<exists>s. walkFromTo adj a s u \<and> length s \<le> length path"
  proof (cases "u = w")
    case True
    with P show ?thesis by (auto simp: inv_paths_def)
  next
    case False
    with u have "u \<in> visited" by simp
    with V obtain s where "walkFromTo adj a s u"
      and "\<forall>e\<in>set ((w, path) # queue). length s \<le> length (snd e)"
      unfolding inv_visited_def by blast
    then show ?thesis by auto
  qed
  then obtain s where "walkFromTo adj a s u" and "length s \<le> length path" by blast
  with bound show "\<exists>s. walkFromTo adj a s u \<and> (\<forall>e\<in>set (queue @ ?new). length s \<le> length (snd e))"
    by (meson le_trans)
qed

lemma inv_visit_frontier:
  assumes P: "inv_paths adj a ((w, path) # queue)"
    and L: "inv_levels ((w, path) # queue)"
    and F: "inv_frontier adj a visited ((w, path) # queue)"
    and V: "inv_visited adj a visited ((w, path) # queue)"
    and unvisited: "w \<notin> visited"
  shows "inv_frontier adj a (insert w visited) (queue @ newEntries adj visited w path)"
  unfolding inv_frontier_def
proof (intro allI impI)
  let ?new = "newEntries adj visited w path"
  fix v
  assume v: "v \<notin> insert w visited" and reach: "\<exists>q. walkFromTo adj a q v"
  from P have head: "walkFromTo adj a path w" by (simp add: inv_paths_def)
  from v reach F obtain e r where e: "e \<in> set ((w, path) # queue)" "fst e \<notin> visited"
      "walkFromTo adj (fst e) r v" "shortestTo adj a (snd e @ tl r) v"
    unfolding inv_frontier_def by blast
  show "\<exists>e\<in>set (queue @ ?new). \<exists>r. fst e \<notin> insert w visited \<and> walkFromTo adj (fst e) r v
            \<and> shortestTo adj a (snd e @ tl r) v"
  proof (cases "fst e = w")
    case False
    with e(1) have "e \<in> set (queue @ ?new)" by auto
    moreover from False e(2) have "fst e \<notin> insert w visited" by simp
    ultimately show ?thesis using e(3,4) by blast
  next
    case True
    have "length path \<le> length (snd e)"
    proof (cases "e = (w, path)")
      case True
      then show ?thesis by simp
    next
      case False
      with e(1) have "e \<in> set queue" by simp
      with L show ?thesis by (rule inv_levels_head)
    qed
    then have len: "length (path @ tl r) \<le> length (snd e @ tl r)" by simp
    from e(3) True have wr: "walkFromTo adj w r v" by simp
    with head have "walkFromTo adj a (path @ tl r) v"
      by (rule walkFromTo_append)
    with e(4) have short: "shortestTo adj a (path @ tl r) v"
      using len by (rule shortestTo_same_length)
    from v have "v \<noteq> w" by simp
    with wr obtain r' where r': "r = w # r'" "hd r' \<in> set (neighborsOf adj w)"
        "walkFromTo adj (hd r') r' v"
      by (rule walkFromTo_first_step)
    let ?n = "hd r'"
    from r'(3) have ne: "r' \<noteq> []" by (auto simp: walkFromTo_def walk_nonempty)
    then have split: "(path @ [?n]) @ tl r' = path @ tl r"
      using r'(1) by (cases r') auto
    show ?thesis
    proof (cases "?n \<in> insert w visited")
      case False
      with r'(2) have "(?n, path @ [?n]) \<in> set (queue @ ?new)" by auto
      moreover have "shortestTo adj a (snd (?n, path @ [?n]) @ tl r') v"
        using short split by simp
      ultimately show ?thesis using False r'(3)
        by (intro bexI [of _ "(?n, path @ [?n])"] exI [of _ r']) simp_all
    next
      case True
      have "\<exists>s. walkFromTo adj a s ?n \<and> length s \<le> length path"
      proof (cases "?n = w")
        case True
        with head show ?thesis by auto
      next
        case False
        with True have "?n \<in> visited" by simp
        with V obtain s where "walkFromTo adj a s ?n"
          and "\<forall>e\<in>set ((w, path) # queue). length s \<le> length (snd e)"
          unfolding inv_visited_def by blast
        then show ?thesis by auto
      qed
      then obtain s where s: "walkFromTo adj a s ?n" "length s \<le> length path" by blast
      from s(1) r'(3) have "walkFromTo adj a (s @ tl r') v" by (rule walkFromTo_append)
      with short have "length (path @ tl r) \<le> length (s @ tl r')"
        unfolding shortestTo_def by blast
      moreover have "length (path @ tl r) = length path + length r'" using r'(1) by simp
      moreover have "length (s @ tl r') < length s + length r'" using ne by simp
      ultimately have False using s(2) by linarith
      then show ?thesis ..
    qed
  qed
qed

lemma inv_visit:
  assumes inv: "findPath_inv adj a b visited ((w, path) # queue)"
    and "w \<noteq> b" and "w \<notin> visited"
  shows "findPath_inv adj a b (insert w visited) (queue @ newEntries adj visited w path)"
  using assms inv_visit_paths inv_visit_levels inv_visit_frontier inv_visit_visited
  unfolding findPath_inv_def by auto

lemma findPath_loop_shortest:
  "findPath_inv adj a b visited queue \<Longrightarrow> findPath_loop adj b visited queue = Some p \<Longrightarrow>
   shortestTo adj a p b"
proof (induction adj b visited queue rule: findPath_loop.induct)
  case (1 adj wallet2 visited)
  then show ?case by simp
next
  case (2 adj wallet2 visited w path queue)
  show ?case
  proof (cases "w = wallet2")
    case True
    with "2.prems" have "p = path" by simp
    with True "2.prems"(1) show ?thesis by (simp add: inv_found)
  next
    case notTarget: False
    show ?thesis
    proof (cases "w \<in> visited")
      case True
      with notTarget "2.prems" have "findPath_loop adj wallet2 visited queue = Some p" by simp
      moreover from "2.prems"(1) True have "findPath_inv adj a wallet2 visited queue"
        by (rule inv_skip)
      ultimately show ?thesis using "2.IH"(1) notTarget True by blast
    next
      case False
      with notTarget "2.prems"
      have "findPath_loop adj wallet2 (insert w visited) (queue @ newEntries adj visited w path) = Some p"
        by simp
      moreover from "2.prems"(1) notTarget False
      have "findPath_inv adj a wallet2 (insert w visited) (queue @ newEntries adj visited w path)"
        by (rule inv_visit)
      ultimately show ?thesis using "2.IH"(2) notTarget False by blast
    qed
  qed
qed

lemma findPath_loop_None_iff:
  "(findPath_loop adj b visited queue = None) = (\<not> areConnected_loop adj b visited (map fst queue))"
proof (induction adj b visited queue rule: findPath_loop.induct)
  case (1 adj wallet2 visited)
  show ?case by simp
next
  case (2 adj wallet2 visited w path queue)
  then show ?case
    by (simp add: filter_map comp_def)
qed

lemma shortest_distance:
  assumes "shortestTo adj a p b"
  shows "edgeCount p = distance adj a b"
proof -
  have "(LEAST n. \<exists>q. walkFromTo adj a q b \<and> edgeCount q = n) = edgeCount p"
  proof (rule Least_equality)
    show "\<exists>q. walkFromTo adj a q b \<and> edgeCount q = edgeCount p"
      using assms by (auto simp: shortestTo_def)
  next
    fix n
    assume "\<exists>q. walkFromTo adj a q b \<and> edgeCount q = n"
    then obtain q where "walkFromTo adj a q b" "edgeCount q = n" by blast
    with assms show "edgeCount p \<le> n"
      by (auto simp: shortestTo_def edgeCount_def diff_le_mono)
  qed
  then show ?thesis by (simp add: distance_def)
qed

text \<open>
  C7: for every pair of wallets and every graph state, \<^verbatim>\<open>findPath(a, b)\<close> is \<^verbatim>\<open>null\<close>
  if and only if \<^verbatim>\<open>areConnected(a, b)\<close> is false; and a path that \<^verbatim>\<open>findPath\<close> returns is a
  walk from \<open>a\<close> to \<open>b\<close> in the adjacency view whose edge count no walk from \<open>a\<close> to \<open>b\<close>
  undercuts: it equals the shortest distance.
\<close>

theorem C7_findPath:
  "(findPath g a b = None) = (\<not> areConnected g a b)
   \<and> (\<forall>p. findPath g a b = Some p \<longrightarrow>
         walkFromTo (adjacencyList g) a p b
         \<and> (\<forall>q. walkFromTo (adjacencyList g) a q b \<longrightarrow> edgeCount p \<le> edgeCount q)
         \<and> edgeCount p = distance (adjacencyList g) a b)"
proof -
  have "(findPath g a b = None) = (\<not> areConnected g a b)"
    using findPath_loop_None_iff [of "adjacencyList g" b "{}" "[(a, [a])]"]
    by (simp add: findPath_def areConnected_def)
  moreover have "walkFromTo (adjacencyList g) a p b
         \<and> (\<forall>q. walkFromTo (adjacencyList g) a q b \<longrightarrow> edgeCount p \<le> edgeCount q)
         \<and> edgeCount p = distance (adjacencyList g) a b"
    if "findPath g a b = Some p" for p
  proof -
    from that have "shortestTo (adjacencyList g) a p b"
      unfolding findPath_def by (intro findPath_loop_shortest [OF inv_init])
    then show ?thesis
      using shortest_distance [of "adjacencyList g" a p b]
      by (auto simp: shortestTo_def edgeCount_def diff_le_mono)
  qed
  ultimately show ?thesis by blast
qed

theorem C7_witness:
  "findPath (runOps [AddEdge ''A'' ''B'' trade 1 1, AddEdge ''B'' ''C'' trade 1 2]) ''A'' ''C''
     = Some [''A'', ''B'', ''C'']
   \<and> areConnected (runOps [AddEdge ''A'' ''B'' trade 1 1, AddEdge ''B'' ''C'' trade 1 2]) ''A'' ''C''
   \<and> walkFromTo (adjacencyList (runOps [AddEdge ''A'' ''B'' trade 1 1, AddEdge ''B'' ''C'' trade 1 2]))
        ''A'' [''A'', ''B'', ''A'', ''B'', ''C''] ''C''
   \<and> edgeCount [''A'', ''B'', ''C''] \<le> edgeCount [''A'', ''B'', ''A'', ''B'', ''C'']
   \<and> distance (adjacencyList (runOps [AddEdge ''A'' ''B'' trade 1 1, AddEdge ''B'' ''C'' trade 1 2]))
        ''A'' ''C'' = 2
   \<and> findPath (runOps [AddEdge ''A'' ''B'' trade 1 1, AddEdge ''B'' ''C'' trade 1 2]) ''A'' ''Z'' = None
   \<and> \<not> areConnected (runOps [AddEdge ''A'' ''B'' trade 1 1, AddEdge ''B'' ''C'' trade 1 2]) ''A'' ''Z''"
proof -
  let ?g = "runOps [AddEdge ''A'' ''B'' trade 1 1, AddEdge ''B'' ''C'' trade 1 2]"
  have adj: "adjacencyList ?g = [(''A'', [''B'']), (''B'', [''A'', ''C'']), (''C'', [''B''])]"
    by (simp add: graph_eval)
  have found: "findPath ?g ''A'' ''C'' = Some [''A'', ''B'', ''C'']"
    by (simp add: findPath_def adj neighborsOf_def)
  have missing: "findPath ?g ''A'' ''Z'' = None"
    by (simp add: findPath_def adj neighborsOf_def)
  have other: "walkFromTo (adjacencyList ?g) ''A'' [''A'', ''B'', ''A'', ''B'', ''C''] ''C''"
    by (simp add: walkFromTo_def adj neighborsOf_def)
  note hit = C7_findPath [of ?g "''A''" "''C''", THEN conjunct2, THEN spec, THEN mp, OF found]
  have conn: "areConnected ?g ''A'' ''C''"
    using C7_findPath [of ?g "''A''" "''C''", THEN conjunct1] found by simp
  have le: "edgeCount [''A'', ''B'', ''C''] \<le> edgeCount [''A'', ''B'', ''A'', ''B'', ''C'']"
    using hit [THEN conjunct2, THEN conjunct1, THEN spec, THEN mp, OF other] .
  have d: "distance (adjacencyList ?g) ''A'' ''C'' = 2"
    using hit [THEN conjunct2, THEN conjunct2] by (simp add: edgeCount_def)
  have notconn: "\<not> areConnected ?g ''A'' ''Z''"
    using C7_findPath [of ?g "''A''" "''Z''", THEN conjunct1] missing by simp
  show ?thesis
    by (intro conjI found conn other le d missing notconn)
qed

section \<open>Relationship graph: buys of unknown wallets\<close>

lemma nodes_addEdge: "nodes (addEdge from to ty amt ts g) = nodes g"
  by (simp add: addEdge_def Let_def)

lemma nodes_fold_addEdge:
  "nodes (fold (\<lambda>x. addEdge (f x) (h x) ty amt ts) xs g) = nodes g"
  by (induction xs arbitrary: g) (simp_all add: nodes_addEdge)

lemma map_of_update_None:
  "map_of (AList.update k v al) w = None \<longleftrightarrow> w \<noteq> k \<and> map_of al w = None"
  by (simp add: update_conv')

lemma nodes_addWallet_absent:
  "w \<noteq> addr \<Longrightarrow> map_of (nodes g) w = None \<Longrightarrow>
   map_of (nodes (addWallet addr seen sources targets g)) w = None"
  by (simp add: addWallet_def Let_def nodes_fold_addEdge map_of_update_None split: option.splits)

lemma nodes_recordBuy_absent:
  "map_of (nodes g) w = None \<Longrightarrow> map_of (nodes (recordBuy w' amt ts g)) w = None"
  by (auto simp: recordBuy_def map_of_update_None split: option.splits)

lemma never_added_absent:
  "\<forall>seen sources targets. AddWallet w seen sources targets \<notin> set ops \<Longrightarrow>
   map_of (nodes (runOps ops)) w = None"
proof (induction ops rule: rev_induct)
  case Nil
  show ?case by (simp add: runOps_def emptyGraph_def)
next
  case (snoc x ops)
  then have IH: "map_of (nodes (runOps ops)) w = None" by simp
  show ?case
  proof (cases x)
    case (AddWallet addr seen sources targets)
    with snoc.prems have "w \<noteq> addr" by auto
    with IH AddWallet show ?thesis
      by (simp add: runOps_snoc nodes_addWallet_absent)
  next
    case (AddEdge src dst ty amt ts)
    with IH show ?thesis by (simp add: runOps_snoc nodes_addEdge)
  next
    case (RecordBuy w' amt ts)
    with IH show ?thesis by (simp add: runOps_snoc nodes_recordBuy_absent)
  next
    case Clear
    then show ?thesis by (simp add: runOps_snoc clear_def)
  qed
qed

text \<open>
  C9: for a wallet address that is not a node of the graph, and so for every address that
  no earlier call of \<^verbatim>\<open>addWallet\<close> has added, \<^verbatim>\<open>recordBuy\<close> leaves the whole graph state
  as it was: no node, no volume, no timestamp; cluster analysis afterwards sees the
  same graph.
\<close>

theorem C9_recordBuy_unknown:
  "(map_of (nodes g) w = None \<longrightarrow> recordBuy w amt ts g = g)
   \<and> ((\<forall>seen sources targets. AddWallet w seen sources targets \<notin> set ops) \<longrightarrow>
        recordBuy w amt ts (runOps ops) = runOps ops
        \<and> findClusters now (recordBuy w amt ts (runOps ops)) = findClusters now (runOps ops))"
  using never_added_absent [of w ops] by (simp add: recordBuy_def)

theorem C9_witness:
  "recordBuy ''B'' 5 7 (runOps [AddWallet ''A'' 1 [] [], AddEdge ''A'' ''B'' trade 2 3])
     = runOps [AddWallet ''A'' 1 [] [], AddEdge ''A'' ''B'' trade 2 3]
   \<and> map_of (nodes (runOps [AddWallet ''A'' 1 [] [], AddEdge ''A'' ''B'' trade 2 3])) ''B'' = None
   \<and> map_of (adjacencyList (runOps [AddWallet ''A'' 1 [] [], AddEdge ''A'' ''B'' trade 2 3])) ''B'' = Some [''A'']"
  using C9_recordBuy_unknown [of "runOps [AddWallet ''A'' 1 [] [], AddEdge ''A'' ''B'' trade 2 3]" "''B''" 5 7
            "[AddWallet ''A'' 1 [] [], AddEdge ''A'' ''B'' trade 2 3]" 0]
  by (simp add: graph_eval)



section \<open>Relationship graph: cluster scoring\<close>

lemma map_of_countInc:
  "map_of (countInc x m) k =
     (if k = x then Some ((case map_of m x of None \<Rightarrow> 0 | Some c \<Rightarrow> c) + 1) else map_of m k)"
  by (simp add: countInc_def update_conv')

lemma map_of_fold_countInc:
  "map_of (fold countInc xs m) k =
     (if k \<in> set xs
      then Some (count_list xs k + (case map_of m k of None \<Rightarrow> 0 | Some c \<Rightarrow> c))
      else map_of m k)"
proof (induction xs arbitrary: m)
  case Nil
  show ?case by simp
next
  case (Cons x xs)
  show ?case
    by (simp add: Cons.IH map_of_countInc)
qed

lemma distinct_fold_countInc:
  "distinct (map fst m) \<Longrightarrow> distinct (map fst (fold countInc xs m))"
  by (induction xs arbitrary: m) (simp_all add: countInc_def distinct_update)

lemma fold_sources_concat:
  "fold (\<lambda>node m. fold countInc (fundingSources node) m) ns m
   = fold countInc (concat (map fundingSources ns)) m"
  by (induction ns arbitrary: m) simp_all

lemma sourceCount_concat:
  "sourceCount ns = fold countInc (concat (map fundingSources ns)) []"
  by (simp add: sourceCount_def fold_sources_concat)

lemma fold_fundingStep:
  "snd (fold fundingStep al (rs, s)) = s + 25 * int (length (filter (\<lambda>e. snd e \<ge> 3) al))"
  by (induction al arbitrary: rs s) (auto simp: fundingStep_def)

lemma count_qualifying:
  assumes "distinct (map fst al)"
  shows "length (filter (\<lambda>e. snd e \<ge> 3) al) = card {k. \<exists>c. map_of al k = Some c \<and> c \<ge> (3::nat)}"
proof -
  let ?q = "filter (\<lambda>e. snd e \<ge> 3) al"
  have d: "distinct (map fst ?q)"
    using assms by (simp add: distinct_map_filter)
  have "{k. \<exists>c. map_of al k = Some c \<and> c \<ge> 3} = fst ` set ?q"
    using assms by (force simp: image_iff)
  then have "card {k. \<exists>c. map_of al k = Some c \<and> c \<ge> 3} = card (set (map fst ?q))"
    by simp
  also have "\<dots> = length (map fst ?q)"
    using d by (rule distinct_card)
  finally show ?thesis by simp
qed

text \<open>
  The points for shared funding, for any cluster: 25 for each source that occurs three
  times or more in the funding histories of the members taken together.
\<close>

lemma funding_points:
  "snd (fold fundingStep (sourceCount ns) (rs, s))
   = s + 25 * int (card {src. 3 \<le> count_list (concat (map fundingSources ns)) src})"
proof -
  let ?xs = "concat (map fundingSources ns)"
  have "distinct (map fst (sourceCount ns))"
    by (simp add: sourceCount_concat distinct_fold_countInc)
  then have "length (filter (\<lambda>e. snd e \<ge> 3) (sourceCount ns))
             = card {k. \<exists>c. map_of (sourceCount ns) k = Some c \<and> c \<ge> 3}"
    by (rule count_qualifying)
  moreover have "(\<exists>c. map_of (sourceCount ns) k = Some c \<and> c \<ge> 3) = (3 \<le> count_list ?xs k)"
    for k
  proof (cases "k \<in> set ?xs")
    case True
    then show ?thesis
      unfolding sourceCount_concat map_of_fold_countInc by simp
  next
    case False
    then have "count_list ?xs k = 0" by (simp only: count_list_0_iff not_False_eq_True)
    with False show ?thesis
      unfolding sourceCount_concat map_of_fold_countInc by simp
  qed
  then have "{k. \<exists>c. map_of (sourceCount ns) k = Some c \<and> c \<ge> 3}
                 = {src. 3 \<le> count_list ?xs src}"
    by simp
  ultimately show ?thesis by (simp add: fold_fundingStep)
qed

text \<open>
  C5: the claim is that the 25 points for shared funding are added once for each funding
  source shared by at least 3 distinct cluster members, a member counting once per source
  however often the source occurs in its funding history. The program counts
  occurrences: after three calls \<^verbatim>\<open>addWallet('A', 0, ['S'])\<close> the graph has the single
  node \<open>A\<close>, whose funding history lists \<open>S\<close> three times, and the cluster of \<open>A\<close> and \<open>S\<close>
  scores 25 (its age of 168 hours and its size of 2 add nothing) with the reason that 3
  wallets were funded from \<open>S\<close>.
\<close>

theorem C5_occurrences_counted:
  "map fst (nodes (runOps [AddWallet ''A'' 0 [''S''] [], AddWallet ''A'' 0 [''S''] [],
                           AddWallet ''A'' 0 [''S''] []])) = [''A'']
   \<and> findClusters 604800000
       (runOps [AddWallet ''A'' 0 [''S''] [], AddWallet ''A'' 0 [''S''] [],
                AddWallet ''A'' 0 [''S''] []])
     = [\<lparr> clusterId = 0, wallets = [''A'', ''S''], centerWallet = Some ''A'',
          cl_totalVolume = 0, avgAge = Some 168, suspicionScore = 25,
          reasons = [SameSource 3 ''S''] \<rparr>]"
  by (simp add: graph_eval cluster_eval)

section \<open>Tier and rewards engine: properties\<close>

text \<open>
  What the two lookups compute. In \<^verbatim>\<open>getDiamondRank\<close> a finite duration never reaches
  the bound of the top tier, and each tier below is returned from the bound that the
  configuration gives to that tier as its end.
\<close>

lemma getDiamondRank_computes:
  "getDiamondRank d =
     (if d \<ge> 180 then Platinum else if d \<ge> 90 then Gold else if d \<ge> 60 then Silver
      else if d \<ge> 30 then Bronze else Paper)"
  by (simp add: getDiamondRank_def DIAMOND_CONFIG_def Let_def)

lemma getMultiplier_computes:
  "getMultiplier d =
     (if d \<ge> 180 then 7 / 2 else if d \<ge> 90 then 3 else if d \<ge> 60 then 5 / 2
      else if d \<ge> 30 then 2 else if d \<ge> 7 then 3 / 2 else 1)"
  by (simp add: getMultiplier_def DIAMOND_CONFIG_def Let_def)

text \<open>
  C1: the claim is that \<^verbatim>\<open>getDiamondRank(d)\<close> is Diamond from 180 days, Platinum from 90,
  Gold from 60, Silver from 30, Bronze from 7 and Paper below, in step with the
  multipliers 3.5, 3.0, 2.5, 2.0, 1.5, 1.0 of \<^verbatim>\<open>getMultiplier(d)\<close>. The program does not
  do that: at 200 days the rank is Platinum while the multiplier is 3.5, at 7 days the
  rank is Paper while the multiplier is 1.5, and no duration has rank Diamond.
\<close>

theorem C1_rank_against_multiplier:
  "getDiamondRank 200 = Platinum \<and> getMultiplier 200 = 7 / 2
   \<and> getDiamondRank 7 = Paper \<and> getMultiplier 7 = 3 / 2
   \<and> (\<forall>d. getDiamondRank d \<noteq> Diamond)"
  by (simp add: getDiamondRank_computes getMultiplier_computes)

text \<open>
  C2, as stated: the history of a 200-day hold followed by a 5-day hold sold at a profit
  of 50 scores 4. It scores 5.
\<close>

theorem C2_counterexample:
  "calculateGlobalScore
     [\<lparr> hist_launchId = ''first'', holdDays = 200, profitLoss = 0,
         wasRugged = False, heldThroughDip = False \<rparr>,
      \<lparr> hist_launchId = ''second'', holdDays = 5, profitLoss = 50,
         wasRugged = False, heldThroughDip = False \<rparr>] \<noteq> 4"
  by (simp add: calculateGlobalScore_def scoreLaunch_def)

text \<open>
  C2, amended: a two-launch history whose first launch was held 200 days and whose second
  was held 5 days scores 5 for the long hold, 2 more for each launch held through a
  dip and 1 more if the first was rugged; the second launch draws no quick-flip penalty,
  whatever its profit. So the score is 5 where neither launch was held through a dip and
  the first was not rugged. One launch changes the running score by its duration points,
  plus 2 if held through a dip, minus 1 exactly when it was held under one day and sold
  at a profit, plus 1 if rugged and held 7 days; the total is floored at 0.
\<close>

theorem C2_global_score:
  "(holdDays l1 = 200 \<and> holdDays l2 = 5 \<and> profitLoss l2 > 0 \<longrightarrow>
      calculateGlobalScore [l1, l2] =
        5 + (if heldThroughDip l1 then 2 else 0) + (if wasRugged l1 then 1 else 0)
          + (if heldThroughDip l2 then 2 else 0))
   \<and> scoreLaunch s l =
        s + (if holdDays l \<ge> 180 then 5 else if holdDays l \<ge> 90 then 3
             else if holdDays l \<ge> 30 then 1 else 0)
          + (if heldThroughDip l then 2 else 0)
          - (if holdDays l < 1 \<and> profitLoss l > 0 then 1 else 0)
          + (if wasRugged l \<and> holdDays l \<ge> 7 then 1 else 0)
   \<and> calculateGlobalScore h = max 0 (foldl scoreLaunch 0 h)"
  by (simp add: calculateGlobalScore_def scoreLaunch_def Let_def)

theorem C2_witness:
  "calculateGlobalScore
     [\<lparr> hist_launchId = ''first'', holdDays = 200, profitLoss = 0,
         wasRugged = False, heldThroughDip = False \<rparr>,
      \<lparr> hist_launchId = ''second'', holdDays = 5, profitLoss = 50,
         wasRugged = False, heldThroughDip = False \<rparr>] = 5
   \<and> scoreLaunch 3 \<lparr> hist_launchId = ''flip'', holdDays = 1 / 2, profitLoss = 50,
                       wasRugged = False, heldThroughDip = False \<rparr> = 2"
  using C2_global_score
    [of "\<lparr> hist_launchId = ''first'', holdDays = 200, profitLoss = 0,
           wasRugged = False, heldThroughDip = False \<rparr>"
        "\<lparr> hist_launchId = ''second'', holdDays = 5, profitLoss = 50,
           wasRugged = False, heldThroughDip = False \<rparr>"
        3
        "\<lparr> hist_launchId = ''flip'', holdDays = 1 / 2, profitLoss = 50,
           wasRugged = False, heldThroughDip = False \<rparr>"
        "[]"]
  by simp

section \<open>Double-precision arithmetic: properties\<close>

lemma pow2_powr: "pow2 k = 2 powr (real_of_int k)"
  unfolding pow2_def by (subst powr_real_of_int) (simp_all add: inverse_eq_divide)

lemma pow2_pos: "0 < pow2 k"
  by (simp add: pow2_powr)

lemma pow2_mono: "j \<le> k \<Longrightarrow> pow2 j \<le> pow2 k"
  by (simp add: pow2_powr)

lemma pow2_strict_mono: "j < k \<Longrightarrow> pow2 j < pow2 k"
  by (simp add: pow2_powr)

lemma pow2_nat: "0 \<le> k \<Longrightarrow> pow2 k = 2 ^ nat k"
  by (simp add: pow2_def)

lemma pow2_neg: "0 \<le> k \<Longrightarrow> pow2 (- k) = 1 / 2 ^ nat k"
  by (cases "k = 0") (simp_all add: pow2_def)

text \<open>The integer part of a number from 1 on brackets it between two powers of two.\<close>

lemma floor_bitlen_bounds:
  assumes "1 \<le> (b::real)"
  shows "0 \<le> bitlen \<lfloor>b\<rfloor> - 1"
    and "2 ^ nat (bitlen \<lfloor>b\<rfloor> - 1) \<le> b"
    and "b < 2 ^ nat (bitlen \<lfloor>b\<rfloor>)"
proof -
  let ?n = "\<lfloor>b\<rfloor>"
  from assms have n: "0 < ?n" by simp
  from bitlen_bounds [OF n] have lo: "2 ^ nat (bitlen ?n - 1) \<le> ?n" and hi: "?n < 2 ^ nat (bitlen ?n)"
    by simp_all
  show "0 \<le> bitlen ?n - 1"
    using n by (simp add: bitlen_alt_def)
  have "real_of_int (2 ^ nat (bitlen ?n - 1)) \<le> real_of_int ?n"
    using lo by (simp only: of_int_le_iff)
  also have "\<dots> \<le> b" by simp
  finally show "2 ^ nat (bitlen ?n - 1) \<le> b" by simp
  have "?n + 1 \<le> 2 ^ nat (bitlen ?n)" using hi by simp
  then have "real_of_int (?n + 1) \<le> real_of_int (2 ^ nat (bitlen ?n))"
    by (simp only: of_int_le_iff)
  then have "real_of_int ?n + 1 \<le> 2 ^ nat (bitlen ?n)" by simp
  moreover have "b < real_of_int ?n + 1" by linarith
  ultimately show "b < 2 ^ nat (bitlen ?n)" by (rule less_le_trans [rotated])
qed

lemma binade_bounds:
  assumes "0 < a"
  shows "pow2 (binade a) \<le> a \<and> a < pow2 (binade a + 1)"
proof (cases "1 \<le> a")
  case True
  let ?l = "bitlen \<lfloor>a\<rfloor>"
  note b = floor_bitlen_bounds [OF True]
  have e: "binade a = ?l - 1" using True by (simp add: binade_def)
  have "pow2 (?l - 1) = 2 ^ nat (?l - 1)" using b(1) by (rule pow2_nat)
  moreover have "pow2 (?l - 1 + 1) = 2 ^ nat ?l" using b(1) by (simp add: pow2_nat)
  ultimately show ?thesis using b(2,3) e by simp
next
  case False
  with assms have one: "1 \<le> 1 / a" by simp
  let ?k = "bitlen \<lfloor>1 / a\<rfloor> - 1"
  note b = floor_bitlen_bounds [OF one]
  have k1: "nat (bitlen \<lfloor>1 / a\<rfloor>) = Suc (nat ?k)" using b(1) by simp
  from b(2) assms have up: "a \<le> 1 / 2 ^ nat ?k"
    by (simp add: field_simps)
  from b(3) assms have "a * 2 ^ Suc (nat ?k) > 1"
    unfolding k1 by (simp add: field_simps)
  then have low: "1 / 2 ^ Suc (nat ?k) < a"
    by (simp add: field_simps)
  have pk: "pow2 (- ?k) = 1 / 2 ^ nat ?k" using b(1) by (rule pow2_neg)
  have pk1: "pow2 (- ?k - 1) = 1 / 2 ^ Suc (nat ?k)"
  proof -
    have "0 \<le> ?k + 1" using b(1) by simp
    then have "pow2 (- (?k + 1)) = 1 / 2 ^ nat (?k + 1)" by (rule pow2_neg)
    moreover have "nat (?k + 1) = Suc (nat ?k)" using b(1) by simp
    ultimately show ?thesis by (simp add: algebra_simps)
  qed
  show ?thesis
  proof (cases "a = pow2 (- ?k)")
    case True
    then have "binade a = - ?k" using False by (simp add: binade_def Let_def)
    moreover have "pow2 (- ?k) < pow2 (- ?k + 1)" by (rule pow2_strict_mono) simp
    ultimately show ?thesis using True by simp
  next
    case ne: False
    then have "binade a = - ?k - 1" using False by (simp add: binade_def Let_def)
    moreover have "a < pow2 (- ?k)" using up ne pk by simp
    ultimately show ?thesis using low pk1 by simp
  qed
qed

lemma roundHalfEven_nearest: "\<bar>m - of_int (roundHalfEven m)\<bar> \<le> 1 / 2"
proof -
  have "0 \<le> m - of_int \<lfloor>m\<rfloor>" and "m - of_int \<lfloor>m\<rfloor> < 1"
    by linarith+
  then show ?thesis
    by (auto simp: roundHalfEven_def Let_def abs_le_iff)
qed

text \<open>
  A finite result of rounding lies within half a unit in the last place of the number
  rounded, and is a whole number of such units.
\<close>

lemma rnd_nearest:
  assumes "rnd x = Finite y"
  shows "\<bar>x - y\<bar> \<le> pow2 (max (binade \<bar>x\<bar>) (- 1022) - 52) / 2
         \<and> (\<exists>n. y = of_int n * pow2 (max (binade \<bar>x\<bar>) (- 1022) - 52))"
proof -
  define u where "u = pow2 (max (binade \<bar>x\<bar>) (- 1022) - 52)"
  define n where "n = roundHalfEven (\<bar>x\<bar> / u)"
  define Y where "Y = of_int n * u"
  have u: "0 < u" unfolding u_def by (rule pow2_pos)
  define ov where "ov = (0 < Y \<and> 1024 \<le> binade Y)"
  have "rnd x =
      (if x = 0 then Finite 0
       else if ov then (if 0 < x then PosInfinity else NegInfinity)
       else Finite (if 0 < x then Y else - Y))"
    unfolding rnd_def Let_def Y_def n_def u_def ov_def ..
  with assms have unfold: "Finite y =
      (if x = 0 then Finite 0
       else if ov then (if 0 < x then PosInfinity else NegInfinity)
       else Finite (if 0 < x then Y else - Y))"
    by (rule subst)
  have "\<bar>\<bar>x\<bar> / u - of_int n\<bar> \<le> 1 / 2"
    unfolding n_def by (rule roundHalfEven_nearest)
  then have "\<bar>\<bar>x\<bar> / u - of_int n\<bar> * u \<le> 1 / 2 * u"
    using u by (intro mult_right_mono) simp_all
  moreover have "\<bar>\<bar>x\<bar> / u - of_int n\<bar> * u = \<bar>\<bar>x\<bar> - Y\<bar>"
  proof -
    have "\<bar>x\<bar> - Y = (\<bar>x\<bar> / u - of_int n) * u"
      using u by (simp add: Y_def field_simps)
    then have "\<bar>\<bar>x\<bar> - Y\<bar> = \<bar>\<bar>x\<bar> / u - of_int n\<bar> * \<bar>u\<bar>"
      by (simp only: abs_mult)
    then show ?thesis using u by (simp only: abs_of_pos)
  qed
  ultimately have close: "\<bar>\<bar>x\<bar> - Y\<bar> \<le> u / 2" by simp
  consider (zero) "x = 0" | (pos) "0 < x" | (neg) "x < 0" by linarith
  then have "\<bar>x - y\<bar> \<le> u / 2 \<and> (\<exists>k. y = of_int k * u)"
  proof cases
    case zero
    with unfold have y0: "y = 0" by simp
    then have "y = of_int 0 * u" by simp
    then have "\<exists>k. y = of_int k * u" ..
    moreover have "\<bar>x - y\<bar> \<le> u / 2" using zero y0 u by simp
    ultimately show ?thesis by blast
  next
    case pos
    with unfold have "y = Y" by (simp split: if_splits)
    moreover from pos have "\<bar>x\<bar> = x" by simp
    ultimately have "\<bar>x - y\<bar> \<le> u / 2" and "y = of_int n * u"
      using close Y_def by simp_all
    then show ?thesis by blast
  next
    case neg
    with unfold have yY: "y = - Y" by (simp split: if_splits)
    from neg have "\<bar>x\<bar> = - x" by simp
    with close have "\<bar>- x - Y\<bar> \<le> u / 2" by simp
    moreover have "\<bar>- x - Y\<bar> = \<bar>x - y\<bar>" unfolding yY by (simp add: abs_if)
    ultimately have "\<bar>x - y\<bar> \<le> u / 2" by simp
    moreover have "y = of_int (- n) * u" by (simp add: yY Y_def)
    ultimately show ?thesis by blast
  qed
  then show ?thesis unfolding u_def .
qed

text \<open>The exponent test of the overflow is the comparison with the first power of two out of range.\<close>

lemma overflow_test: "0 < y \<Longrightarrow> (1024 \<le> binade y) = (pow2 1024 \<le> y)"
proof -
  assume y: "0 < y"
  from binade_bounds [OF y] have b: "pow2 (binade y) \<le> y" "y < pow2 (binade y + 1)" by simp_all
  show ?thesis
  proof
    assume "1024 \<le> binade y"
    then have "pow2 1024 \<le> pow2 (binade y)" by (rule pow2_mono)
    from this b(1) show "pow2 1024 \<le> y" by (rule order_trans)
  next
    assume "pow2 1024 \<le> y"
    from this b(2) have lt: "pow2 1024 < pow2 (binade y + 1)" by (rule le_less_trans)
    show "1024 \<le> binade y"
    proof (rule ccontr)
      assume "\<not> 1024 \<le> binade y"
      then have "binade y + 1 \<le> 1024" by simp
      then have "pow2 (binade y + 1) \<le> pow2 1024" by (rule pow2_mono)
      with lt show False by simp
    qed
  qed
qed

section \<open>Rewards in double precision\<close>

text \<open>The example, evaluated: every operation of the computation, rounded in turn.\<close>

lemma example_rewards:
  "calculateRewards 1000 exampleHolder examplePool
     = \<lparr> rw_wallet = ''w'', rw_launchId = ''l'', baseRewards = Finite 10,
         diamondBonus = Finite 10,
         loyaltyBonus = Finite (1125899906842625 / 562949953421312),
         totalRewards = Finite 22, holdMultiplier = Finite 2,
         loyaltyMultiplier = Finite (2476979795053773 / 2251799813685248),
         claimable = True, nextClaimAt = None \<rparr>"
  by code_simp

lemma example_tenth_of_score:
  "dmul (dadd (Finite 10) (Finite 10)) (dmul (literal (1 / 10)) (Finite 1)) = Finite 2"
  by code_simp

text \<open>
  C8, as stated: the loyalty bonus is base rewards plus diamond bonus, times a tenth of
  the global holder score. For the holder of the example, with score 1, the program
  returns 1125899906842625 / 562949953421312 (2.0000000000000018), because it
  multiplies by \<open>(1 + 1 * 0.1) - 1\<close> and the sum \<open>1 + 0.1\<close> is rounded before 1 is taken
  away again; base plus bonus, 20, times a tenth of the score is 2.
\<close>

theorem C8_counterexample:
  "loyaltyBonus (calculateRewards 1000 exampleHolder examplePool)
     = Finite (1125899906842625 / 562949953421312)
   \<and> dmul (dadd (baseRewards (calculateRewards 1000 exampleHolder examplePool))
               (diamondBonus (calculateRewards 1000 exampleHolder examplePool)))
         (dmul (literal (1 / 10)) (Finite (globalHolderScore exampleHolder)))
     = Finite 2
   \<and> loyaltyBonus (calculateRewards 1000 exampleHolder examplePool)
     \<noteq> dmul (dadd (baseRewards (calculateRewards 1000 exampleHolder examplePool))
               (diamondBonus (calculateRewards 1000 exampleHolder examplePool)))
         (dmul (literal (1 / 10)) (Finite (globalHolderScore exampleHolder)))"
proof -
  have score: "globalHolderScore exampleHolder = 1"
    by (simp add: exampleHolder_def)
  have code: "loyaltyBonus (calculateRewards 1000 exampleHolder examplePool)
                = Finite (1125899906842625 / 562949953421312)"
    by (simp only: example_rewards HolderRewards.select_convs)
  have claimed: "dmul (dadd (baseRewards (calculateRewards 1000 exampleHolder examplePool))
               (diamondBonus (calculateRewards 1000 exampleHolder examplePool)))
         (dmul (literal (1 / 10)) (Finite (globalHolderScore exampleHolder))) = Finite 2"
    by (simp only: example_rewards HolderRewards.select_convs score example_tenth_of_score)
  have differ: "loyaltyBonus (calculateRewards 1000 exampleHolder examplePool)
     \<noteq> dmul (dadd (baseRewards (calculateRewards 1000 exampleHolder examplePool))
               (diamondBonus (calculateRewards 1000 exampleHolder examplePool)))
         (dmul (literal (1 / 10)) (Finite (globalHolderScore exampleHolder)))"
    unfolding code claimed by simp
  show ?thesis by (intro conjI code claimed differ)
qed

text \<open>
  C8, amended: for every holder and pool \<^verbatim>\<open>calculateRewards\<close> returns, each operation
  being the double-precision one: base rewards of balance over the assumed supply of one
  billion, times the remaining pool, times 0.01; a diamond bonus of the base times the
  hold multiplier less one; the loyalty multiplier 1 plus the global holder score times
  0.1; a loyalty bonus of base plus diamond bonus, times the loyalty multiplier less
  one; and base plus diamond bonus plus loyalty bonus as total. A holder who has
  claimed nothing yet is claimable, whatever the time of the last activity.
\<close>

theorem C8_calculateRewards:
  "baseRewards (calculateRewards now h p) =
     dmul (dmul (ddiv (Finite (balance h)) (literal 1000000000)) (Finite (remaining p)))
       (literal (1 / 100))
   \<and> holdMultiplier (calculateRewards now h p) = Finite (getMultiplier (holdDurationDays h))
   \<and> diamondBonus (calculateRewards now h p) =
        dmul (baseRewards (calculateRewards now h p))
          (dsub (holdMultiplier (calculateRewards now h p)) (literal 1))
   \<and> loyaltyMultiplier (calculateRewards now h p) =
        dadd (literal 1) (dmul (Finite (globalHolderScore h)) (literal (1 / 10)))
   \<and> loyaltyBonus (calculateRewards now h p) =
        dmul (dadd (baseRewards (calculateRewards now h p)) (diamondBonus (calculateRewards now h p)))
          (dsub (loyaltyMultiplier (calculateRewards now h p)) (literal 1))
   \<and> totalRewards (calculateRewards now h p) =
        dadd (dadd (baseRewards (calculateRewards now h p)) (diamondBonus (calculateRewards now h p)))
          (loyaltyBonus (calculateRewards now h p))
   \<and> (rewardsClaimed h = 0 \<longrightarrow> claimable (calculateRewards now h p))"
  by (simp add: calculateRewards_def Let_def)

theorem C8_witness:
  "rewardsClaimed exampleHolder = 0
   \<and> claimable (calculateRewards 1000 exampleHolder examplePool)
   \<and> totalRewards (calculateRewards 1000 exampleHolder examplePool) = Finite 22"
proof -
  have z: "rewardsClaimed exampleHolder = 0"
    by (simp add: exampleHolder_def)
  note all = C8_calculateRewards [of 1000 exampleHolder examplePool]
  have c: "claimable (calculateRewards 1000 exampleHolder examplePool)"
    using all [THEN conjunct2, THEN conjunct2, THEN conjunct2, THEN conjunct2, THEN conjunct2,
               THEN conjunct2, THEN mp, OF z] .
  have t: "totalRewards (calculateRewards 1000 exampleHolder examplePool) = Finite 22"
    by (simp only: example_rewards HolderRewards.select_convs)
  show ?thesis by (intro conjI z c t)
qed

section \<open>Coordination detector: properties\<close>

text \<open>
  Whatever the six checks find, the analysis is assembled from the final list of flags
  alone: confidence, verdict, action and penalty are functions of it.
\<close>

lemma analyzeTransaction_shape:
  assumes "analyzeTransaction now d sg lid buys = Inr (a, d')"
  shows "\<exists>fs related src.
           a = createAnalysis sg lid
                 (calculateConfidence fs \<ge> BUNDLE_CONFIDENCE_THRESHOLD DIAMOND_CONFIG)
                 (calculateConfidence fs) fs
                 (determineAction (calculateConfidence fs) fs) related src
                 (determinePenalty (determineAction (calculateConfidence fs) fs) fs)"
proof (cases "getParsedTransaction (connection d) sg")
  case (Inl e)
  with assms show ?thesis by (simp add: analyzeTransaction_def)
next
  case (Inr found)
  show ?thesis
  proof (cases found)
    case None
    with Inr assms have "a = createAnalysis sg lid False 0 [] none [] None None"
      by (simp add: analyzeTransaction_def)
    moreover have "calculateConfidence [] = 0"
      and "determineAction 0 [] = none"
      and "determinePenalty none [] = None"
      and "\<not> (0 \<ge> BUNDLE_CONFIDENCE_THRESHOLD DIAMOND_CONFIG)"
      by (simp_all add: calculateConfidence_def determineAction_def determinePenalty_def
            DIAMOND_CONFIG_def)
    ultimately show ?thesis by metis
  next
    case (Some tx)
    show ?thesis
    proof (cases "accountKeys tx")
      case Nil
      with Inr Some assms show ?thesis by (simp add: analyzeTransaction_def)
    next
      case (Cons buyerWallet rest)
      with Inr Some assms show ?thesis
        unfolding analyzeTransaction_def Let_def
        by (simp split del: if_split) blast
    qed
  qed
qed

lemma fold_weights:
  "fold (\<lambda>f score. score + severityWeights (severity f)) fs s
   = s + sum_list (map (\<lambda>f. severityWeights (severity f)) fs)"
  by (induction fs arbitrary: s) simp_all

lemma severityWeights_nonneg: "0 \<le> severityWeights s"
  by (cases s) (simp_all add: severityWeights_def)

lemma calculateConfidence_sum:
  "calculateConfidence fs = min 100 (sum_list (map (\<lambda>f. severityWeights (severity f)) fs))"
  by (cases fs) (simp_all add: calculateConfidence_def fold_weights)

lemma calculateConfidence_range: "0 \<le> calculateConfidence fs \<and> calculateConfidence fs \<le> 100"
proof -
  have "0 \<le> sum_list (map (\<lambda>f. severityWeights (severity f)) fs)"
    by (rule sum_list_nonneg) (auto simp: severityWeights_nonneg)
  then show ?thesis by (simp add: calculateConfidence_sum)
qed

lemmas detector_eval = analyzeTransaction_def analyzeFundingSources_def getWalletAge_def
  countNewWalletBuyers_def extractBuyAmount_def firstBalance_def detectTimingPattern_def
  calculateConfidence_def severityWeights_def determineAction_def determinePenalty_def
  createAnalysis_def topSourceOf_def countInc_def set_add_def addKnownBundler_def
  DIAMOND_CONFIG_def exampleTx_def exampleConnection_def exampleDetector_def exampleBuy_def
  exampleBuys_def Let_def

text \<open>
  C3: for every evaluated transaction the action is \<^verbatim>\<open>block\<close> if a flag of type
  \<^verbatim>\<open>known_bundler\<close> is present, whatever the confidence; otherwise \<^verbatim>\<open>block\<close> from
  confidence 90, \<^verbatim>\<open>reduce_rewards\<close> from 70, \<^verbatim>\<open>delay_rewards\<close> from 50, \<^verbatim>\<open>flag\<close> from 30
  and \<^verbatim>\<open>none\<close> below. The penalty carries the action: \<^verbatim>\<open>block\<close> by itself,
  \<^verbatim>\<open>reduce_rewards\<close> with a reduction of 50 percent, \<^verbatim>\<open>delay_rewards\<close> with a delay of
  30 days; \<^verbatim>\<open>flag\<close> and \<^verbatim>\<open>none\<close> have no penalty.
\<close>

theorem C3_action_and_penalty:
  "analyzeTransaction now d sg lid buys = Inr (a, d') \<longrightarrow>
     action a =
       (if \<exists>f \<in> set (flags a). flag_type f = known_bundler then block
        else if confidence a \<ge> 90 then block
        else if confidence a \<ge> 70 then reduce_rewards
        else if confidence a \<ge> 50 then delay_rewards
        else if confidence a \<ge> 30 then flag
        else none)
     \<and> penaltyApplied a =
       (case action a of
          block \<Rightarrow> Some \<lparr> penalty_action = block, rewardDelayDays = None,
                            rewardReductionPercent = None \<rparr>
        | reduce_rewards \<Rightarrow> Some \<lparr> penalty_action = reduce_rewards, rewardDelayDays = None,
                                     rewardReductionPercent = Some 50 \<rparr>
        | delay_rewards \<Rightarrow> Some \<lparr> penalty_action = delay_rewards, rewardDelayDays = Some 30,
                                    rewardReductionPercent = None \<rparr>
        | flag \<Rightarrow> None
        | none \<Rightarrow> None)"
proof
  assume "analyzeTransaction now d sg lid buys = Inr (a, d')"
  then obtain fs related src where
    "a = createAnalysis sg lid
           (calculateConfidence fs \<ge> BUNDLE_CONFIDENCE_THRESHOLD DIAMOND_CONFIG)
           (calculateConfidence fs) fs
           (determineAction (calculateConfidence fs) fs) related src
           (determinePenalty (determineAction (calculateConfidence fs) fs) fs)"
    using analyzeTransaction_shape by blast
  then have "action a = determineAction (confidence a) (flags a)"
    and "penaltyApplied a = determinePenalty (action a) (flags a)"
    by (simp_all add: createAnalysis_def)
  then show "action a =
       (if \<exists>f \<in> set (flags a). flag_type f = known_bundler then block
        else if confidence a \<ge> 90 then block
        else if confidence a \<ge> 70 then reduce_rewards
        else if confidence a \<ge> 50 then delay_rewards
        else if confidence a \<ge> 30 then flag
        else none)
     \<and> penaltyApplied a =
       (case action a of
          block \<Rightarrow> Some \<lparr> penalty_action = block, rewardDelayDays = None,
                            rewardReductionPercent = None \<rparr>
        | reduce_rewards \<Rightarrow> Some \<lparr> penalty_action = reduce_rewards, rewardDelayDays = None,
                                     rewardReductionPercent = Some 50 \<rparr>
        | delay_rewards \<Rightarrow> Some \<lparr> penalty_action = delay_rewards, rewardDelayDays = Some 30,
                                    rewardReductionPercent = None \<rparr>
        | flag \<Rightarrow> None
        | none \<Rightarrow> None)"
    by (simp add: determineAction_def determinePenalty_def DIAMOND_CONFIG_def
          split: BundleAction.splits)
qed

theorem C3_witness:
  "analyzeTransaction 0 (addKnownBundler ''W'' exampleDetector) ''sig'' ''launch'' []
     = Inr (\<lparr> transactionSignature = ''sig'', analysis_launchId = ''launch'', isBundled = False,
              confidence = 40,
              flags = [\<lparr> flag_type = known_bundler, severity = critical, evidence = None \<rparr>],
              relatedWallets = [], fundingSource = None, action = block,
              penaltyApplied = Some \<lparr> penalty_action = block, rewardDelayDays = None,
                                       rewardReductionPercent = None \<rparr> \<rparr>,
            addKnownBundler ''W'' exampleDetector)
   \<and> analyzeTransaction 0 exampleDetector ''sig'' ''launch'' exampleBuys
     = Inr (\<lparr> transactionSignature = ''sig'', analysis_launchId = ''launch'', isBundled = False,
              confidence = 40,
              flags = [\<lparr> flag_type = same_block_buys, severity = high,
                         evidence = Some (SameBlockEvidence 4 7) \<rparr>,
                       \<lparr> flag_type = similar_amounts, severity = medium,
                         evidence = Some (AmountEvidence 1 3) \<rparr>],
              relatedWallets = [''X'', ''Y'', ''Z''], fundingSource = None, action = flag,
              penaltyApplied = None \<rparr>,
            exampleDetector)"
  using C3_action_and_penalty [of 0 "addKnownBundler ''W'' exampleDetector" "''sig''" "''launch''" "[]"]
    C3_action_and_penalty [of 0 exampleDetector "''sig''" "''launch''" exampleBuys]
  by (simp add: detector_eval)

text \<open>
  C4: for every list of flags the confidence is the sum of the weights of their
  severities (critical 40, high 25, medium 15, low 5) clamped at 100, so it lies between
  0 and 100; and every analysis an evaluation returns has \<^verbatim>\<open>isBundled\<close> exactly when
  its confidence is at least 70.
\<close>

theorem C4_confidence:
  "0 \<le> calculateConfidence fs \<and> calculateConfidence fs \<le> 100
   \<and> calculateConfidence fs = min 100 (sum_list (map (\<lambda>f. severityWeights (severity f)) fs))
   \<and> severityWeights critical = 40 \<and> severityWeights high = 25
   \<and> severityWeights medium = 15 \<and> severityWeights low = 5
   \<and> BUNDLE_CONFIDENCE_THRESHOLD DIAMOND_CONFIG = 70
   \<and> (analyzeTransaction now d sg lid buys = Inr (a, d') \<longrightarrow>
        isBundled a = (confidence a \<ge> 70)
        \<and> confidence a = calculateConfidence (flags a)
        \<and> 0 \<le> confidence a \<and> confidence a \<le> 100)"
proof -
  have "isBundled a = (confidence a \<ge> 70) \<and> confidence a = calculateConfidence (flags a)
        \<and> 0 \<le> confidence a \<and> confidence a \<le> 100"
    if "analyzeTransaction now d sg lid buys = Inr (a, d')"
  proof -
    from that obtain fs' related src where
      "a = createAnalysis sg lid
             (calculateConfidence fs' \<ge> BUNDLE_CONFIDENCE_THRESHOLD DIAMOND_CONFIG)
             (calculateConfidence fs') fs'
             (determineAction (calculateConfidence fs') fs') related src
             (determinePenalty (determineAction (calculateConfidence fs') fs') fs')"
      using analyzeTransaction_shape by blast
    then show ?thesis
      using calculateConfidence_range [of fs']
      by (simp add: createAnalysis_def DIAMOND_CONFIG_def)
  qed
  moreover have "severityWeights critical = 40 \<and> severityWeights high = 25
     \<and> severityWeights medium = 15 \<and> severityWeights low = 5
     \<and> BUNDLE_CONFIDENCE_THRESHOLD DIAMOND_CONFIG = 70"
    by (simp add: severityWeights_def DIAMOND_CONFIG_def)
  ultimately show ?thesis
    using calculateConfidence_range [of fs] calculateConfidence_sum [of fs] by blast
qed

theorem C4_witness:
  "analyzeTransaction 0 (addKnownBundler ''W'' exampleDetector) ''sig'' ''launch'' exampleBuys
     = Inr (\<lparr> transactionSignature = ''sig'', analysis_launchId = ''launch'', isBundled = True,
              confidence = 80,
              flags = [\<lparr> flag_type = known_bundler, severity = critical, evidence = None \<rparr>,
                       \<lparr> flag_type = same_block_buys, severity = high,
                         evidence = Some (SameBlockEvidence 4 7) \<rparr>,
                       \<lparr> flag_type = similar_amounts, severity = medium,
                         evidence = Some (AmountEvidence 1 3) \<rparr>],
              relatedWallets = [''X'', ''Y'', ''Z''], fundingSource = None, action = block,
              penaltyApplied = Some \<lparr> penalty_action = block, rewardDelayDays = None,
                                       rewardReductionPercent = None \<rparr> \<rparr>,
            addKnownBundler ''W'' exampleDetector)
   \<and> calculateConfidence (replicate 5 \<lparr> flag_type = wash_trading, severity = high, evidence = None \<rparr>) = 100"
  using C4_confidence [of "replicate 5 \<lparr> flag_type = wash_trading, severity = high, evidence = None \<rparr>"
          0 "addKnownBundler ''W'' exampleDetector" "''sig''" "''launch''" exampleBuys]
  by (simp add: detector_eval numeral_eq_Suc)

text \<open>
  C6: if the transaction-data collaborator does not find the signature, the evaluation
  returns, and returns the analysis with confidence 0, not bundled, no flags, no related
  wallets, action \<^verbatim>\<open>none\<close> and no penalty; the detector is left as it was.
\<close>

theorem C6_unresolved_signature:
  "getParsedTransaction (connection d) sg = Inr None \<longrightarrow>
     analyzeTransaction now d sg lid buys
       = Inr (\<lparr> transactionSignature = sg, analysis_launchId = lid, isBundled = False,
                confidence = 0, flags = [], relatedWallets = [], fundingSource = None,
                action = none, penaltyApplied = None \<rparr>, d)"
  by (simp add: analyzeTransaction_def createAnalysis_def)

theorem C6_witness:
  "getParsedTransaction (connection exampleDetector) ''missing'' = Inr None
   \<and> analyzeTransaction 0 exampleDetector ''missing'' ''launch'' exampleBuys
       = Inr (\<lparr> transactionSignature = ''missing'', analysis_launchId = ''launch'',
                isBundled = False, confidence = 0, flags = [], relatedWallets = [],
                fundingSource = None, action = none, penaltyApplied = None \<rparr>, exampleDetector)"
  using C6_unresolved_signature [of exampleDetector "''missing''" 0 "''launch''" exampleBuys]
  by (simp add: exampleDetector_def exampleConnection_def)

end
